theory Spec2Isabelle
  imports Main "HOL-Library.Word"
begin

section \<open>Data model\<close>

text \<open>
  The two programs (\<^verbatim>\<open>server3.c\<close>, \<^verbatim>\<open>client.c\<close>) are sequential C code over POSIX
  system calls. The C code is embedded as functions on an explicit \<open>world\<close>; the system
  calls are the environment, and their answers are read from scripts held in the world.

  \<^item> \<open>char\<close> is a byte, \<open>size_t\<close> a 64-bit word (subtraction wraps), \<open>ssize_t\<close> and
    \<open>int\<close> results are integers, with \<open>-1\<close> the failure value of a system call.
  \<^item> A pointer is an address in a flat byte memory; \<open>NULL\<close> is address 0.
\<close>

type_synonym byte = "8 word"
type_synonym size_t = "64 word"
type_synonym addr = nat

definition NULL :: addr where
  "NULL = 0"

datatype errno =
  ENONE | EINTR | ECONNABORTED | EFAULT | EINVAL | ENOMEM | EAGAIN | EPIPE | EBADF | EIO

text \<open>What one call of \<^verbatim>\<open>read\<close>, \<^verbatim>\<open>write\<close>, \<^verbatim>\<open>select\<close>, \<^verbatim>\<open>accept\<close> finds.\<close>

datatype rd_event = RFail errno | RData "byte list"
datatype wr_event = WFail errno | WRoom nat
datatype sel_event = SFail errno | SReady "int set"
datatype acc_event = AFail errno | AConn nat

text \<open>
  \<^item> \<open>rd w fd\<close>: what the next calls of \<^verbatim>\<open>read\<close> on \<open>fd\<close> find: a failure, or the bytes
    that have arrived (\<open>RData []\<close>: the peer has closed, \<^verbatim>\<open>read\<close> returns 0).
  \<^item> \<open>wr w\<close>: what the next calls of \<^verbatim>\<open>write\<close> find: a failure, or room for so many bytes.
  \<^item> \<open>cl\<close>, \<open>sel\<close>, \<open>acc\<close>, \<open>ma\<close>, \<open>pt\<close>: the same for \<^verbatim>\<open>close\<close>, \<^verbatim>\<open>select\<close>,
    \<^verbatim>\<open>accept\<close>, \<^verbatim>\<open>malloc\<close> (the address returned, \<open>NULL\<close> on failure) and
    \<^verbatim>\<open>pthread_create\<close> (the error number returned, \<open>None\<close> for 0).
  \<^item> \<open>mem\<close>: the memory; \<open>out w fd\<close>: the bytes delivered to \<open>fd\<close> so far;
    \<open>closed\<close>: the descriptors closed so far, in order; \<open>errno\<close>; \<open>stderr\<close>: the lines
    \<^verbatim>\<open>perror\<close> has printed (prefix and error number).
  A call of \<^verbatim>\<open>read\<close>, \<^verbatim>\<open>write\<close>, \<^verbatim>\<open>close\<close>, \<^verbatim>\<open>select\<close> or \<^verbatim>\<open>accept\<close> that finds
  its script empty never returns.
\<close>

record world =
  rd :: "int \<Rightarrow> rd_event list"
  wr :: "wr_event list"
  cl :: "errno option list"
  sel :: "sel_event list"
  acc :: "acc_event list"
  ma :: "addr list"
  pt :: "errno option list"
  mem :: "addr \<Rightarrow> byte"
  out :: "int \<Rightarrow> byte list"
  closed :: "int list"
  errno :: errno
  stderr :: "(string \<times> errno) list"

text \<open>
  How a C function ends: it returns a value, the process exits with a status
  (\<^verbatim>\<open>exit\<close>), or it never returns (a system call waits forever). Each comes with the
  world at that point.
\<close>

datatype 'a outcome = Ret 'a world | Exit int world | Blocked world

fun final :: "'a outcome \<Rightarrow> world" where
  "final (Ret v w) = w"
| "final (Exit c w) = w"
| "final (Blocked w) = w"

section \<open>System calls\<close>

text \<open>Linux transfers at most \<^verbatim>\<open>MAX_RW_COUNT\<close> = \<^verbatim>\<open>0x7ffff000\<close> bytes in one call.\<close>

definition MAX_RW_COUNT :: nat where
  "MAX_RW_COUNT = 2147479552"

primrec store :: "addr \<Rightarrow> byte list \<Rightarrow> (addr \<Rightarrow> byte) \<Rightarrow> (addr \<Rightarrow> byte)" where
  "store p [] m = m"
| "store p (b # bs) m = store (Suc p) bs (m(p := b))"

definition load :: "addr \<Rightarrow> nat \<Rightarrow> (addr \<Rightarrow> byte) \<Rightarrow> byte list" where
  "load p k m = map m [p ..< p + k]"

text \<open>
  \<^verbatim>\<open>read(fd, buf, count)\<close> takes the next event of \<open>fd\<close>: a failure sets \<^verbatim>\<open>errno\<close> and
  gives -1; data gives as many of its bytes as \<open>count\<close> allows, stored from \<open>buf\<close> on, and
  the bytes not taken stay first in line. \<^verbatim>\<open>write(fd, buf, count)\<close> takes the next event
  of the write script: where there is room for \<open>k\<close> bytes it sends the first
  \<open>min k count\<close> bytes found in memory from \<open>buf\<close> on, whatever object they belong to.
  \<^verbatim>\<open>close(fd)\<close> fails, or succeeds and records \<open>fd\<close> as closed.
\<close>

definition sys_read :: "int \<Rightarrow> addr \<Rightarrow> size_t \<Rightarrow> world \<Rightarrow> (int \<times> world) option" where
  "sys_read fd buf count w =
     (case rd w fd of
        [] \<Rightarrow> None
      | RFail e # evs \<Rightarrow> Some (- 1, w\<lparr>rd := (rd w)(fd := evs), errno := e\<rparr>)
      | RData bs # evs \<Rightarrow>
          (let m = min (length bs) (min (unat count) MAX_RW_COUNT)
           in Some (int m,
                w\<lparr>rd := (rd w)(fd := (if m < length bs then RData (drop m bs) # evs else evs)),
                  mem := store buf (take m bs) (mem w)\<rparr>)))"

definition sys_write :: "int \<Rightarrow> addr \<Rightarrow> size_t \<Rightarrow> world \<Rightarrow> (int \<times> world) option" where
  "sys_write fd buf count w =
     (case wr w of
        [] \<Rightarrow> None
      | WFail e # evs \<Rightarrow> Some (- 1, w\<lparr>wr := evs, errno := e\<rparr>)
      | WRoom k # evs \<Rightarrow>
          (let m = min k (min (unat count) MAX_RW_COUNT)
           in Some (int m,
                w\<lparr>wr := evs, out := (out w)(fd := out w fd @ load buf m (mem w))\<rparr>)))"

definition sys_close :: "int \<Rightarrow> world \<Rightarrow> (int \<times> world) option" where
  "sys_close fd w =
     (case cl w of
        [] \<Rightarrow> None
      | Some e # evs \<Rightarrow> Some (- 1, w\<lparr>cl := evs, errno := e\<rparr>)
      | None # evs \<Rightarrow> Some (0, w\<lparr>cl := evs, closed := closed w @ [fd]\<rparr>))"

text \<open>
  \<^verbatim>\<open>select(n, readfds, NULL, NULL, NULL)\<close>: of the descriptors below \<open>n\<close> in \<open>readfds\<close>,
  those that are ready stay in the set; the result is their number.
\<close>

definition sys_select :: "int \<Rightarrow> int set \<Rightarrow> world \<Rightarrow> (int \<times> int set \<times> world) option" where
  "sys_select n readfds w =
     (case sel w of
        [] \<Rightarrow> None
      | SFail e # evs \<Rightarrow> Some (- 1, readfds, w\<lparr>sel := evs, errno := e\<rparr>)
      | SReady r # evs \<Rightarrow>
          (let s = readfds \<inter> r \<inter> {..<n}
           in Some (int (card s), s, w\<lparr>sel := evs\<rparr>)))"

definition sys_accept :: "int \<Rightarrow> world \<Rightarrow> (int \<times> world) option" where
  "sys_accept socket w =
     (case acc w of
        [] \<Rightarrow> None
      | AFail e # evs \<Rightarrow> Some (- 1, w\<lparr>acc := evs, errno := e\<rparr>)
      | AConn c # evs \<Rightarrow> Some (int c, w\<lparr>acc := evs\<rparr>))"

text \<open>
  \<^verbatim>\<open>malloc\<close> and \<^verbatim>\<open>pthread_create\<close> do not wait: with nothing scripted, the first is
  out of memory and the second out of resources.
\<close>

definition sys_malloc :: "size_t \<Rightarrow> world \<Rightarrow> addr \<times> world" where
  "sys_malloc sz w =
     (case ma w of
        [] \<Rightarrow> (NULL, w\<lparr>errno := ENOMEM\<rparr>)
      | a # as \<Rightarrow> (a, w\<lparr>ma := as, errno := (if a = NULL then ENOMEM else errno w)\<rparr>))"

definition sys_pthread_create :: "world \<Rightarrow> errno option \<times> world" where
  "sys_pthread_create w =
     (case pt w of
        [] \<Rightarrow> (Some EAGAIN, w)
      | r # rs \<Rightarrow> (r, w\<lparr>pt := rs\<rparr>))"

section \<open>The wrappers (both files)\<close>

text \<open>\<^verbatim>\<open>error\<close>: \<^verbatim>\<open>perror(s); exit(-1);\<close>\<close>

definition perror :: "string \<Rightarrow> world \<Rightarrow> world" where
  "perror s w = w\<lparr>stderr := stderr w @ [(s, errno w)]\<rparr>"

definition error :: "string \<Rightarrow> world \<Rightarrow> 'a outcome" where
  "error s w = Exit (- 1) (perror s w)"

function Read :: "int \<Rightarrow> addr \<Rightarrow> size_t \<Rightarrow> world \<Rightarrow> size_t outcome" where
  "Read fd buf count w =
     (case sys_read fd buf count w of
        None \<Rightarrow> Blocked w
      | Some (rc, w1) \<Rightarrow>
          if rc \<noteq> - 1 then Ret (word_of_int rc) w1
          else if errno w1 = EINTR then Read fd buf count w1
          else error ''read()'' w1)"
  by pat_completeness auto
termination
  by (relation "measure (\<lambda>(fd, buf, count, w). length (rd w fd))")
     (auto simp: sys_read_def Let_def split: list.splits rd_event.splits)

function Write :: "int \<Rightarrow> addr \<Rightarrow> size_t \<Rightarrow> world \<Rightarrow> size_t outcome" where
  "Write fd buf count w =
     (case sys_write fd buf count w of
        None \<Rightarrow> Blocked w
      | Some (rc, w1) \<Rightarrow>
          if rc \<noteq> - 1 then Ret (word_of_int rc) w1
          else if errno w1 = EINTR then Write fd buf count w1
          else error ''write()'' w1)"
  by pat_completeness auto
termination
  by (relation "measure (\<lambda>(fd, buf, count, w). length (wr w))")
     (auto simp: sys_write_def Let_def split: list.splits wr_event.splits)

function Close :: "int \<Rightarrow> world \<Rightarrow> unit outcome" where
  "Close fd w =
     (case sys_close fd w of
        None \<Rightarrow> Blocked w
      | Some (rc, w1) \<Rightarrow>
          if rc = 0 then Ret () w1
          else if errno w1 = EINTR then Close fd w1
          else error ''close()'' w1)"
  by pat_completeness auto
termination
  by (relation "measure (\<lambda>(fd, w). length (cl w))")
     (auto simp: sys_close_def split: list.splits option.splits)

text \<open>
  \<^verbatim>\<open>Accept\<close> (server3.c) and \<^verbatim>\<open>Select\<close> (client.c). The address arguments of
  \<^verbatim>\<open>Accept\<close> and the write set, exception set and timeout of \<^verbatim>\<open>Select\<close> are \<^verbatim>\<open>NULL\<close>
  in the only call of each and are left out. \<^verbatim>\<open>Select\<close> returns, with its result, the set
  that \<^verbatim>\<open>select\<close> has left in \<^verbatim>\<open>readfds\<close>.
\<close>

function Accept :: "int \<Rightarrow> world \<Rightarrow> int outcome" where
  "Accept socket w =
     (case sys_accept socket w of
        None \<Rightarrow> Blocked w
      | Some (rc, w1) \<Rightarrow>
          if rc \<noteq> - 1 then Ret rc w1
          else if errno w1 = EINTR \<or> errno w1 = ECONNABORTED then Accept socket w1
          else error ''accept()'' w1)"
  by pat_completeness auto
termination
  by (relation "measure (\<lambda>(socket, w). length (acc w))")
     (auto simp: sys_accept_def split: list.splits acc_event.splits)

function Select :: "int \<Rightarrow> int set \<Rightarrow> world \<Rightarrow> (int \<times> int set) outcome" where
  "Select n readfds w =
     (case sys_select n readfds w of
        None \<Rightarrow> Blocked w
      | Some (rc, readfds1, w1) \<Rightarrow>
          if rc \<noteq> - 1 then Ret (rc, readfds1) w1
          else if errno w1 = EINTR then Select n readfds1 w1
          else error ''select()'' w1)"
  by pat_completeness auto
termination
  by (relation "measure (\<lambda>(n, readfds, w). length (sel w))")
     (auto simp: sys_select_def Let_def split: list.splits sel_event.splits)

declare Read.simps [simp del] Write.simps [simp del] Close.simps [simp del]
  Accept.simps [simp del] Select.simps [simp del]

lemma Write_consumes:
  "Write fd buf count w = Ret rc w1 \<Longrightarrow> length (wr w1) < length (wr w)"
proof (induction fd buf count w rule: Write.induct)
  case (1 fd buf count w)
  show ?case
  proof (cases "sys_write fd buf count w")
    case None
    with "1.prems" show ?thesis by (simp add: Write.simps [of fd buf count w])
  next
    case (Some r)
    obtain rc0 w0 where r: "r = (rc0, w0)" by (cases r)
    have step: "length (wr w0) < length (wr w)"
      using Some r
      by (auto simp: sys_write_def Let_def split: list.splits wr_event.splits)
    show ?thesis
    proof (cases "rc0 \<noteq> - 1")
      case True
      with "1.prems" Some r step show ?thesis
        by (simp add: Write.simps [of fd buf count w])
    next
      case False
      with "1.prems" Some r have e: "errno w0 = EINTR" and rec: "Write fd buf count w0 = Ret rc w1"
        by (auto simp: Write.simps [of fd buf count w] error_def split: if_splits)
      from "1.IH" [OF Some r [symmetric]] False e rec have "length (wr w1) < length (wr w0)"
        by simp
      with step show ?thesis by simp
    qed
  qed
qed

section \<open>writen\<close>

text \<open>
  \<^verbatim>\<open>writen\<close> of client.c. The loop \<^verbatim>\<open>while(n) { rc = Write(socket, p, n); n -= rc; p += rc; }\<close>
  is \<open>writen_loop\<close>.
\<close>

function writen_loop :: "int \<Rightarrow> addr \<Rightarrow> size_t \<Rightarrow> world \<Rightarrow> unit outcome" where
  "writen_loop socket p n w =
     (if n \<noteq> 0 then
        (case Write socket p n w of
           Ret rc w1 \<Rightarrow> writen_loop socket (p + unat rc) (n - rc) w1
         | Exit c w1 \<Rightarrow> Exit c w1
         | Blocked w1 \<Rightarrow> Blocked w1)
      else Ret () w)"
  by pat_completeness auto
termination
  by (relation "measure (\<lambda>(socket, p, n, w). length (wr w))")
     (auto dest: Write_consumes)

declare writen_loop.simps [simp del]

definition writen_client :: "int \<Rightarrow> addr \<Rightarrow> size_t \<Rightarrow> world \<Rightarrow> size_t outcome" where
  "writen_client socket buf count w =
     (if buf = NULL then error ''writen()'' (w\<lparr>errno := EFAULT\<rparr>)
      else (case writen_loop socket buf count w of
              Ret u w1 \<Rightarrow> Ret count w1
            | Exit c w1 \<Rightarrow> Exit c w1
            | Blocked w1 \<Rightarrow> Blocked w1))"

text \<open>
  \<^verbatim>\<open>writen\<close> of server3.c. Its loop is
  \<^verbatim>\<open>while (n) { rc = Write(socket, p, count); n -= rc; p += rc; }\<close>:
  every call asks for \<open>count\<close> bytes, not for the \<open>n\<close> that remain.
\<close>

function writen_loop_server :: "int \<Rightarrow> addr \<Rightarrow> size_t \<Rightarrow> size_t \<Rightarrow> world \<Rightarrow> unit outcome" where
  "writen_loop_server socket p n count w =
     (if n \<noteq> 0 then
        (case Write socket p count w of
           Ret rc w1 \<Rightarrow> writen_loop_server socket (p + unat rc) (n - rc) count w1
         | Exit c w1 \<Rightarrow> Exit c w1
         | Blocked w1 \<Rightarrow> Blocked w1)
      else Ret () w)"
  by pat_completeness auto
termination
  by (relation "measure (\<lambda>(socket, p, n, count, w). length (wr w))")
     (auto dest: Write_consumes)

declare writen_loop_server.simps [simp del]

definition writen_server :: "int \<Rightarrow> addr \<Rightarrow> size_t \<Rightarrow> world \<Rightarrow> size_t outcome" where
  "writen_server socket buf count w =
     (if buf = NULL then error ''writen()'' (w\<lparr>errno := EFAULT\<rparr>)
      else (case writen_loop_server socket buf count count w of
              Ret u w1 \<Rightarrow> Ret count w1
            | Exit c w1 \<Rightarrow> Exit c w1
            | Blocked w1 \<Rightarrow> Blocked w1))"

section \<open>reads (server3.c)\<close>

text \<open>
  The parameter \<^verbatim>\<open>size\<close> of \<^verbatim>\<open>reads\<close> is called \<open>sz\<close>. \<open>reads_loop\<close> is the loop
  \<^verbatim>\<open>while (n < size)\<close>, entered after \<^verbatim>\<open>size--\<close>; \<open>reads_end\<close> is the code after
  the loop, \<^verbatim>\<open>*p = 0; return n;\<close>, which both \<^verbatim>\<open>break\<close>s reach.
\<close>

lemma size_t_succ: "n < sz \<Longrightarrow> unat (n + 1) = unat n + 1" for n sz :: size_t
proof -
  assume "n < sz"
  then have a: "unat n < unat sz" by (simp add: word_less_nat_alt)
  have b: "unat sz < 2 ^ 64" using unsigned_less [of sz, where ?'a = nat] by simp
  have "unat (n + 1) = (unat n + 1) mod 2 ^ 64" by (simp add: unat_word_ariths)
  also have "\<dots> = unat n + 1" using a b by simp
  finally show ?thesis .
qed

definition reads_end :: "addr \<Rightarrow> size_t \<Rightarrow> world \<Rightarrow> size_t outcome" where
  "reads_end p n w = Ret n (w\<lparr>mem := (mem w)(p := 0)\<rparr>)"

function reads_loop :: "int \<Rightarrow> size_t \<Rightarrow> addr \<Rightarrow> size_t \<Rightarrow> world \<Rightarrow> size_t outcome" where
  "reads_loop socket sz p n w =
     (if n < sz then
        (case Read socket p 1 w of
           Ret rc w1 \<Rightarrow>
             if rc = 0 then reads_end p n w1
             else if mem w1 p = 10 then reads_end (p + 1) (n + 1) w1
             else reads_loop socket sz (p + 1) (n + 1) w1
         | Exit c w1 \<Rightarrow> Exit c w1
         | Blocked w1 \<Rightarrow> Blocked w1)
      else reads_end p n w)"
  by pat_completeness auto
termination
proof (relation "measure (\<lambda>(socket, sz, p, n, w). unat sz - unat n)")
  show "wf (measure (\<lambda>(socket, sz, p, n, w). unat sz - unat n))" by simp
next
  fix socket :: int and sz n rc :: size_t and p :: addr and w w1 :: world
  assume lt: "n < sz"
  then have "unat n < unat sz" by (simp add: word_less_nat_alt)
  moreover have "unat (n + 1) = unat n + 1"
    using lt by (rule size_t_succ)
  ultimately show "((socket, sz, p + 1, n + 1, w1), (socket, sz, p, n, w))
      \<in> measure (\<lambda>(socket, sz, p, n, w). unat sz - unat n)"
    by simp
qed

declare reads_loop.simps [simp del]

definition reads :: "int \<Rightarrow> addr \<Rightarrow> size_t \<Rightarrow> world \<Rightarrow> size_t outcome" where
  "reads socket s sz w =
     (if s = NULL then error ''reads()'' (w\<lparr>errno := EFAULT\<rparr>)
      else if sz = 0 then Ret 0 w
      else reads_loop socket (sz - 1) s 0 w)"

section \<open>The client's loop (client.c)\<close>

definition STDIN_FILENO :: int where
  "STDIN_FILENO = 0"

definition STDOUT_FILENO :: int where
  "STDOUT_FILENO = 1"

definition MAXLINE :: size_t where
  "MAXLINE = 256"

text \<open>The macro \<^verbatim>\<open>MAX\<close>.\<close>

definition MAX_int :: "int \<Rightarrow> int \<Rightarrow> int" where
  "MAX_int a b = (if a > b then a else b)"

definition FD_ZERO :: "int set" where
  "FD_ZERO = {}"

definition FD_SET :: "int \<Rightarrow> int set \<Rightarrow> int set" where
  "FD_SET fd fds = insert fd fds"

definition FD_ISSET :: "int \<Rightarrow> int set \<Rightarrow> bool" where
  "FD_ISSET fd fds = (fd \<in> fds)"

text \<open>What the body of the \<^verbatim>\<open>for(;;)\<close> of \<^verbatim>\<open>do_work\<close> asks for: \<^verbatim>\<open>break\<close>, or go on.\<close>

datatype ctl = Break | Continue

text \<open>
  The first \<^verbatim>\<open>if\<close> of the loop body:
  \<^verbatim>\<open>if(FD_ISSET(STDIN_FILENO, &readfds)) { rc = Read(STDIN_FILENO, s, MAXLINE);
  if(!rc) break; writen(socket, s, rc); }\<close>
\<close>

definition do_work_stdin :: "int \<Rightarrow> addr \<Rightarrow> int set \<Rightarrow> world \<Rightarrow> ctl outcome" where
  "do_work_stdin socket s readfds w =
     (if FD_ISSET STDIN_FILENO readfds then
        (case Read STDIN_FILENO s MAXLINE w of
           Ret rc w1 \<Rightarrow>
             if rc = 0 then Ret Break w1
             else (case writen_client socket s rc w1 of
                     Ret r w2 \<Rightarrow> Ret Continue w2
                   | Exit c w2 \<Rightarrow> Exit c w2
                   | Blocked w1 \<Rightarrow> Blocked w1)
         | Exit c w1 \<Rightarrow> Exit c w1
         | Blocked w1 \<Rightarrow> Blocked w1)
      else Ret Continue w)"

text \<open>
  The second \<^verbatim>\<open>if\<close>:
  \<^verbatim>\<open>if(FD_ISSET(socket, &readfds)) { rc = Read(socket, s, MAXLINE);
  if(!rc) break; Write(STDOUT_FILENO, s, rc); }\<close>
\<close>

definition do_work_socket :: "int \<Rightarrow> addr \<Rightarrow> int set \<Rightarrow> world \<Rightarrow> ctl outcome" where
  "do_work_socket socket s readfds w =
     (if FD_ISSET socket readfds then
        (case Read socket s MAXLINE w of
           Ret rc w1 \<Rightarrow>
             if rc = 0 then Ret Break w1
             else (case Write STDOUT_FILENO s rc w1 of
                     Ret r w2 \<Rightarrow> Ret Continue w2
                   | Exit c w2 \<Rightarrow> Exit c w2
                   | Blocked w1 \<Rightarrow> Blocked w1)
         | Exit c w1 \<Rightarrow> Exit c w1
         | Blocked w1 \<Rightarrow> Blocked w1)
      else Ret Continue w)"

text \<open>
  What a call of \<^verbatim>\<open>Read\<close> on \<open>fd\<close> leaves alone, and what a call of \<^verbatim>\<open>Write\<close> on
  \<open>fd\<close> leaves alone; \<open>others\<close> are the parts that neither touches.
\<close>

definition others ::
  "world \<Rightarrow> errno option list \<times> sel_event list \<times> acc_event list \<times> addr list \<times>
     errno option list \<times> int list" where
  "others w = (cl w, sel w, acc w, ma w, pt w, closed w)"

definition read_frame :: "int \<Rightarrow> world \<Rightarrow> world \<Rightarrow> bool" where
  "read_frame fd w w1 \<longleftrightarrow>
     others w1 = others w \<and> wr w1 = wr w \<and> out w1 = out w \<and>
     (\<forall>fd'. fd' \<noteq> fd \<longrightarrow> rd w1 fd' = rd w fd')"

definition write_frame :: "int \<Rightarrow> world \<Rightarrow> world \<Rightarrow> bool" where
  "write_frame fd w w1 \<longleftrightarrow>
     others w1 = others w \<and> rd w1 = rd w \<and> mem w1 = mem w \<and>
     (\<forall>fd'. fd' \<noteq> fd \<longrightarrow> out w1 fd' = out w fd')"

lemma read_frame_refl [simp]: "read_frame fd w w"
  by (simp add: read_frame_def)

lemma read_frame_trans: "read_frame fd w w0 \<Longrightarrow> read_frame fd w0 w1 \<Longrightarrow> read_frame fd w w1"
  by (simp add: read_frame_def)

lemma write_frame_refl [simp]: "write_frame fd w w"
  by (simp add: write_frame_def)

lemma write_frame_trans: "write_frame fd w w0 \<Longrightarrow> write_frame fd w0 w1 \<Longrightarrow> write_frame fd w w1"
  by (simp add: write_frame_def)

lemma read_frame_perror [simp]: "read_frame fd w (perror s w1) = read_frame fd w w1"
  by (simp add: read_frame_def perror_def others_def)

lemma write_frame_perror [simp]: "write_frame fd w (perror s w1) = write_frame fd w w1"
  by (simp add: write_frame_def perror_def others_def)

lemma final_error [simp]: "final (error s w) = perror s w"
  by (simp add: error_def)

lemma sys_read_frame: "sys_read fd buf count w = Some (rc, w0) \<Longrightarrow> read_frame fd w w0"
  by (auto simp: sys_read_def Let_def read_frame_def others_def
      split: list.splits rd_event.splits)

lemma sys_write_frame: "sys_write fd buf count w = Some (rc, w0) \<Longrightarrow> write_frame fd w w0"
  by (auto simp: sys_write_def Let_def write_frame_def others_def
      split: list.splits wr_event.splits)

lemma Read_frame: "read_frame fd w (final (Read fd buf count w))"
proof (induction fd buf count w rule: Read.induct)
  case (1 fd buf count w)
  show ?case
  proof (cases "sys_read fd buf count w")
    case None
    then show ?thesis by (simp add: Read.simps [of fd buf count w])
  next
    case (Some r)
    obtain rc0 w0 where r: "r = (rc0, w0)" by (cases r)
    have step: "read_frame fd w w0" using Some r by (simp add: sys_read_frame)
    show ?thesis
    proof (cases "rc0 \<noteq> - 1")
      case True
      with Some r step show ?thesis by (simp add: Read.simps [of fd buf count w])
    next
      case False
      show ?thesis
      proof (cases "errno w0 = EINTR")
        case True
        from "1.IH" [OF Some r [symmetric] _ True] False
        have "read_frame fd w0 (final (Read fd buf count w0))" by simp
        with step have "read_frame fd w (final (Read fd buf count w0))"
          by (rule read_frame_trans)
        with Some r False True show ?thesis by (simp add: Read.simps [of fd buf count w])
      next
        case e: False
        with Some r False step show ?thesis by (simp add: Read.simps [of fd buf count w])
      qed
    qed
  qed
qed

lemma Write_frame: "write_frame fd w (final (Write fd buf count w))"
proof (induction fd buf count w rule: Write.induct)
  case (1 fd buf count w)
  show ?case
  proof (cases "sys_write fd buf count w")
    case None
    then show ?thesis by (simp add: Write.simps [of fd buf count w])
  next
    case (Some r)
    obtain rc0 w0 where r: "r = (rc0, w0)" by (cases r)
    have step: "write_frame fd w w0" using Some r by (simp add: sys_write_frame)
    show ?thesis
    proof (cases "rc0 \<noteq> - 1")
      case True
      with Some r step show ?thesis by (simp add: Write.simps [of fd buf count w])
    next
      case False
      show ?thesis
      proof (cases "errno w0 = EINTR")
        case True
        from "1.IH" [OF Some r [symmetric] _ True] False
        have "write_frame fd w0 (final (Write fd buf count w0))" by simp
        with step have "write_frame fd w (final (Write fd buf count w0))"
          by (rule write_frame_trans)
        with Some r False True show ?thesis by (simp add: Write.simps [of fd buf count w])
      next
        case e: False
        with Some r False step show ?thesis by (simp add: Write.simps [of fd buf count w])
      qed
    qed
  qed
qed

lemma writen_loop_frame: "write_frame fd w (final (writen_loop fd p n w))"
proof (induction fd p n w rule: writen_loop.induct)
  case (1 fd p n w)
  show ?case
  proof (cases "n = 0")
    case True
    then show ?thesis by (simp add: writen_loop.simps [of fd p 0 w])
  next
    case False
    have step: "write_frame fd w (final (Write fd p n w))" by (rule Write_frame)
    show ?thesis
    proof (cases "Write fd p n w")
      case (Ret rc w0)
      from "1.IH" [OF False Ret] step Ret
      have "write_frame fd w (final (writen_loop fd (p + unat rc) (n - rc) w0))"
        by (auto intro: write_frame_trans)
      with False Ret show ?thesis by (simp add: writen_loop.simps [of fd p n w])
    next
      case (Exit c w0)
      with False step show ?thesis by (simp add: writen_loop.simps [of fd p n w])
    next
      case (Blocked w0)
      with False step show ?thesis by (simp add: writen_loop.simps [of fd p n w])
    qed
  qed
qed

lemma writen_loop_server_frame:
  "write_frame fd w (final (writen_loop_server fd p n count w))"
proof (induction fd p n count w rule: writen_loop_server.induct)
  case (1 fd p n count w)
  show ?case
  proof (cases "n = 0")
    case True
    then show ?thesis by (simp add: writen_loop_server.simps [of fd p 0 count w])
  next
    case False
    have step: "write_frame fd w (final (Write fd p count w))" by (rule Write_frame)
    show ?thesis
    proof (cases "Write fd p count w")
      case (Ret rc w0)
      from "1.IH" [OF False Ret] step Ret
      have "write_frame fd w (final (writen_loop_server fd (p + unat rc) (n - rc) count w0))"
        by (auto intro: write_frame_trans)
      with False Ret show ?thesis by (simp add: writen_loop_server.simps [of fd p n count w])
    next
      case (Exit c w0)
      with False step show ?thesis by (simp add: writen_loop_server.simps [of fd p n count w])
    next
      case (Blocked w0)
      with False step show ?thesis by (simp add: writen_loop_server.simps [of fd p n count w])
    qed
  qed
qed

lemma final_case_outcome [simp]:
  "final (case x of Ret u w1 \<Rightarrow> Ret v w1 | Exit c w1 \<Rightarrow> Exit c w1 | Blocked w1 \<Rightarrow> Blocked w1)
     = final x"
  by (cases x) simp_all

lemma writen_client_frame: "write_frame fd w (final (writen_client fd buf count w))"
  by (simp add: writen_client_def writen_loop_frame)
     (simp add: write_frame_def others_def)

lemma writen_server_frame: "write_frame fd w (final (writen_server fd buf count w))"
  by (simp add: writen_server_def writen_loop_server_frame)
     (simp add: write_frame_def others_def)

lemma Select_consumes:
  "Select n readfds w = Ret x w1 \<Longrightarrow> length (sel w1) < length (sel w)"
proof (induction n readfds w rule: Select.induct)
  case (1 n readfds w)
  show ?case
  proof (cases "sys_select n readfds w")
    case None
    with "1.prems" show ?thesis by (simp add: Select.simps [of n readfds w])
  next
    case (Some r)
    obtain rc0 fds0 w0 where r: "r = (rc0, fds0, w0)" by (cases r)
    have step: "length (sel w0) < length (sel w)"
      using Some r
      by (auto simp: sys_select_def Let_def split: list.splits sel_event.splits)
    show ?thesis
    proof (cases "rc0 \<noteq> - 1")
      case True
      with "1.prems" Some r step show ?thesis
        by (simp add: Select.simps [of n readfds w])
    next
      case False
      with "1.prems" Some r have e: "errno w0 = EINTR"
        and rec: "Select n fds0 w0 = Ret x w1"
        by (auto simp: Select.simps [of n readfds w] error_def split: if_splits)
      from "1.IH" [OF Some r [symmetric] _ _ e rec] False
      have "length (sel w1) < length (sel w0)" by simp
      with step show ?thesis by simp
    qed
  qed
qed

lemma do_work_stdin_others: "others (final (do_work_stdin socket s readfds w)) = others w"
proof (cases "FD_ISSET STDIN_FILENO readfds")
  case False
  then show ?thesis by (simp add: do_work_stdin_def)
next
  case True
  have r: "others (final (Read STDIN_FILENO s MAXLINE w)) = others w"
    using Read_frame [of STDIN_FILENO w s MAXLINE] by (simp add: read_frame_def)
  show ?thesis
  proof (cases "Read STDIN_FILENO s MAXLINE w")
    case (Ret rc w0)
    have "others (final (writen_client socket s rc w0)) = others w0"
      using writen_client_frame [of socket w0 s rc] by (simp add: write_frame_def)
    with True Ret r show ?thesis
      by (simp add: do_work_stdin_def split: outcome.splits)
  next
    case (Exit c w0)
    with True r show ?thesis by (simp add: do_work_stdin_def)
  next
    case (Blocked w0)
    with True r show ?thesis by (simp add: do_work_stdin_def)
  qed
qed

lemma do_work_socket_others: "others (final (do_work_socket socket s readfds w)) = others w"
proof (cases "FD_ISSET socket readfds")
  case False
  then show ?thesis by (simp add: do_work_socket_def)
next
  case True
  have r: "others (final (Read socket s MAXLINE w)) = others w"
    using Read_frame [of socket w s MAXLINE] by (simp add: read_frame_def)
  show ?thesis
  proof (cases "Read socket s MAXLINE w")
    case (Ret rc w0)
    have "others (final (Write STDOUT_FILENO s rc w0)) = others w0"
      using Write_frame [of STDOUT_FILENO w0 s rc] by (simp add: write_frame_def)
    with True Ret r show ?thesis
      by (simp add: do_work_socket_def split: outcome.splits)
  next
    case (Exit c w0)
    with True r show ?thesis by (simp add: do_work_socket_def)
  next
    case (Blocked w0)
    with True r show ?thesis by (simp add: do_work_socket_def)
  qed
qed

lemma do_work_stdin_sel: "do_work_stdin socket s readfds w = Ret k w1 \<Longrightarrow> sel w1 = sel w"
  using do_work_stdin_others [of socket s readfds w] by (simp add: others_def)

lemma do_work_socket_sel: "do_work_socket socket s readfds w = Ret k w1 \<Longrightarrow> sel w1 = sel w"
  using do_work_socket_others [of socket s readfds w] by (simp add: others_def)

text \<open>
  \<^verbatim>\<open>do_work\<close>: \<open>s\<close> is the address of the local array \<^verbatim>\<open>char s[MAXLINE]\<close>. The sets are
  rebuilt and \<^verbatim>\<open>Select\<close> is called at the head of every iteration.
\<close>

function do_work_loop :: "int \<Rightarrow> addr \<Rightarrow> int \<Rightarrow> world \<Rightarrow> unit outcome" where
  "do_work_loop socket s n w =
     (case Select n (FD_SET socket (FD_SET STDIN_FILENO FD_ZERO)) w of
        Ret sr w1 \<Rightarrow>
          (case do_work_stdin socket s (snd sr) w1 of
             Ret Break w2 \<Rightarrow> Ret () w2
           | Ret Continue w2 \<Rightarrow>
               (case do_work_socket socket s (snd sr) w2 of
                  Ret Break w3 \<Rightarrow> Ret () w3
                | Ret Continue w3 \<Rightarrow> do_work_loop socket s n w3
                | Exit c w3 \<Rightarrow> Exit c w3
                | Blocked w3 \<Rightarrow> Blocked w3)
           | Exit c w2 \<Rightarrow> Exit c w2
           | Blocked w2 \<Rightarrow> Blocked w2)
      | Exit c w1 \<Rightarrow> Exit c w1
      | Blocked w1 \<Rightarrow> Blocked w1)"
  by pat_completeness auto
termination
  by (relation "measure (\<lambda>(socket, s, n, w). length (sel w))")
     (auto dest!: Select_consumes do_work_stdin_sel do_work_socket_sel)

declare do_work_loop.simps [simp del]

definition do_work :: "int \<Rightarrow> addr \<Rightarrow> world \<Rightarrow> unit outcome" where
  "do_work socket s w = do_work_loop socket s (MAX_int STDIN_FILENO socket + 1) w"

section \<open>The server (server3.c)\<close>

definition Malloc :: "size_t \<Rightarrow> world \<Rightarrow> addr outcome" where
  "Malloc sz w =
     (case sys_malloc sz w of
        (rc, w1) \<Rightarrow> if rc = NULL then error ''malloc()'' w1 else Ret rc w1)"

definition Pthread_create :: "world \<Rightarrow> unit outcome" where
  "Pthread_create w =
     (case sys_pthread_create w of
        (rc, w1) \<Rightarrow>
          (case rc of
             Some e \<Rightarrow> error ''pthread_create()'' (w1\<lparr>errno := e\<rparr>)
           | None \<Rightarrow> Ret () w1))"

text \<open>
  \<^verbatim>\<open>serve_client\<close>. The thread first detaches itself, takes the descriptor out of its
  argument block, frees the block, allocates \<^verbatim>\<open>random_message\<close> with \<^verbatim>\<open>malloc\<close> (the
  result is not checked) and fills it with random letters and a zero byte. None of this
  is a call on the connection, and it is left out: \<open>socket\<close> is the descriptor taken
  from the block, \<open>random_message\<close> the address \<^verbatim>\<open>malloc\<close> has returned (possibly
  \<open>NULL\<close>) and \<open>mem w\<close> the memory after the fill. What follows is modelled:
  \<^verbatim>\<open>writen(socket, random_message, 64); Close(socket); return NULL;\<close>.
\<close>

definition serve_client :: "int \<Rightarrow> addr \<Rightarrow> world \<Rightarrow> addr outcome" where
  "serve_client socket random_message w =
     (case writen_server socket random_message 64 w of
        Ret r w1 \<Rightarrow>
          (case Close socket w1 of
             Ret u w2 \<Rightarrow> Ret NULL w2
           | Exit c w2 \<Rightarrow> Exit c w2
           | Blocked w2 \<Rightarrow> Blocked w2)
      | Exit c w1 \<Rightarrow> Exit c w1
      | Blocked w1 \<Rightarrow> Blocked w1)"

text \<open>
  One turn of the \<^verbatim>\<open>for (;;)\<close> of \<^verbatim>\<open>main\<close>:
  \<^verbatim>\<open>csocket = Accept(lsocket, NULL, 0); arg = Malloc(sizeof(int)); *arg = csocket;
  Pthread_create(&thread, NULL, serve_client, arg);\<close>
  The block at \<open>arg\<close> only carries \<open>csocket\<close> to the new thread: the store into it and
  the thread's load from it are left out, and the result is the descriptor handed over.
\<close>

definition main_accept :: "int \<Rightarrow> world \<Rightarrow> int outcome" where
  "main_accept lsocket w =
     (case Accept lsocket w of
        Ret csocket w1 \<Rightarrow>
          (case Malloc 4 w1 of
             Ret arg w2 \<Rightarrow>
               (case Pthread_create w2 of
                  Ret u w3 \<Rightarrow> Ret csocket w3
                | Exit c w3 \<Rightarrow> Exit c w3
                | Blocked w3 \<Rightarrow> Blocked w3)
           | Exit c w2 \<Rightarrow> Exit c w2
           | Blocked w2 \<Rightarrow> Blocked w2)
      | Exit c w1 \<Rightarrow> Exit c w1
      | Blocked w1 \<Rightarrow> Blocked w1)"

text \<open>
  The server process: the world and the descriptors of the handler threads that have been
  created and have not run yet, or the exit status once \<^verbatim>\<open>exit\<close> has been called by any
  thread (\<^verbatim>\<open>exit\<close> ends the process, and with it every thread). A schedule says which
  thread runs next: the listener makes one turn of its loop, or the \<open>i\<close>-th waiting handler
  runs \<^verbatim>\<open>serve_client\<close>, with its message at the given address, to its end: a return,
  the exit of the process, or a system call that never returns, where the thread hangs
  for good. A thread's turn is run in one piece: how the system calls of different
  threads interleave is not modelled.
\<close>

datatype proc = Running world "int list" | Terminated int world

datatype action = Listener | Handler nat addr

fun step :: "int \<Rightarrow> proc \<Rightarrow> action \<Rightarrow> proc" where
  "step lsocket (Terminated c w) a = Terminated c w"
| "step lsocket (Running w hs) Listener =
     (case main_accept lsocket w of
        Ret csocket w1 \<Rightarrow> Running w1 (hs @ [csocket])
      | Exit c w1 \<Rightarrow> Terminated c w1
      | Blocked w1 \<Rightarrow> Running w1 hs)"
| "step lsocket (Running w hs) (Handler i random_message) =
     (if i < length hs then
        (case serve_client (hs ! i) random_message w of
           Ret r w1 \<Rightarrow> Running w1 (take i hs @ drop (Suc i) hs)
         | Exit c w1 \<Rightarrow> Terminated c w1
         | Blocked w1 \<Rightarrow> Running w1 (take i hs @ drop (Suc i) hs))
      else Running w hs)"

definition run :: "int \<Rightarrow> proc \<Rightarrow> action list \<Rightarrow> proc" where
  "run lsocket p sched = foldl (step lsocket) p sched"

section \<open>Worlds and streams used in the statements\<close>

text \<open>The world in which nothing has happened and nothing is scripted.\<close>

definition world0 :: world where
  "world0 = \<lparr>rd = (\<lambda>fd. []), wr = [], cl = [], sel = [], acc = [], ma = [], pt = [],
     mem = (\<lambda>a. 0), out = (\<lambda>fd. []), closed = [], errno = ENONE, stderr = []\<rparr>"

text \<open>
  The bytes a descriptor's script delivers to successive reads, up to the first end of
  stream, failure other than \<^verbatim>\<open>EINTR\<close>, or end of the script; and which of the three it is.
\<close>

fun stream_bytes :: "rd_event list \<Rightarrow> byte list" where
  "stream_bytes [] = []"
| "stream_bytes (RFail e # evs) = (if e = EINTR then stream_bytes evs else [])"
| "stream_bytes (RData bs # evs) = (if bs = [] then [] else bs @ stream_bytes evs)"

datatype ending = AtEof | AtFailure errno | AtBlock

fun stream_end :: "rd_event list \<Rightarrow> ending" where
  "stream_end [] = AtBlock"
| "stream_end (RFail e # evs) = (if e = EINTR then stream_end evs else AtFailure e)"
| "stream_end (RData bs # evs) = (if bs = [] then AtEof else stream_end evs)"

text \<open>
  The number of bytes the write script takes before the first failure other than
  \<^verbatim>\<open>EINTR\<close> or the end of the script.
\<close>

fun room :: "wr_event list \<Rightarrow> nat" where
  "room [] = 0"
| "room (WFail e # evs) = (if e = EINTR then room evs else 0)"
| "room (WRoom k # evs) = min k MAX_RW_COUNT + room evs"

text \<open>
  How many of the bytes \<open>xs\<close> a line of at most \<open>k\<close> bytes takes: up to and including
  the first newline; the line is \<open>full\<close> when it ends by a newline or by reaching \<open>k\<close>.
\<close>

fun line_len :: "byte list \<Rightarrow> nat \<Rightarrow> nat" where
  "line_len [] k = 0"
| "line_len (x # xs) 0 = 0"
| "line_len (x # xs) (Suc k) = (if x = 10 then 1 else Suc (line_len xs k))"

definition full :: "byte list \<Rightarrow> nat \<Rightarrow> bool" where
  "full xs k \<longleftrightarrow>
     line_len xs k = k \<or> (0 < line_len xs k \<and> xs ! (line_len xs k - 1) = 10)"

text \<open>What \<^verbatim>\<open>Close\<close> does to the list of closed descriptors, and what it leaves alone.\<close>

definition close_frame :: "world \<Rightarrow> world \<Rightarrow> bool" where
  "close_frame w w1 \<longleftrightarrow>
     rd w1 = rd w \<and> wr w1 = wr w \<and> mem w1 = mem w \<and> out w1 = out w \<and>
     sel w1 = sel w \<and> acc w1 = acc w \<and> ma w1 = ma w \<and> pt w1 = pt w"

text \<open>What a call that does no input or output on descriptors leaves alone.\<close>

definition no_io :: "world \<Rightarrow> world \<Rightarrow> bool" where
  "no_io w w1 \<longleftrightarrow>
     rd w1 = rd w \<and> wr w1 = wr w \<and> cl w1 = cl w \<and> mem w1 = mem w \<and> out w1 = out w \<and>
     closed w1 = closed w"


definition world_line :: world where
  "world_line = world0\<lparr>rd := (\<lambda>fd. [])(3 := [RData [104, 105], RFail EINTR, RData [10, 120]])\<rparr>"

definition world_closing :: world where
  "world_closing = world0\<lparr>rd := (\<lambda>fd. [])(3 := [RData [104, 105], RFail EINTR, RData []])\<rparr>"

definition world_hello :: world where
  "world_hello = world0\<lparr>wr := [WRoom 64], cl := [None], acc := [AConn 4], ma := [200],
     pt := [None]\<rparr>"

definition world_server :: world where
  "world_server = world0\<lparr>acc := [AConn 4, AConn 5, AConn 6], ma := [200, 204, 208],
     pt := [None, None, None], wr := [WFail EPIPE], cl := [None, None]\<rparr>"

definition world_client :: world where
  "world_client = world0\<lparr>sel := [SReady {3}, SReady {0}],
     rd := (\<lambda>fd. [])(3 := [RData [104, 105]], 0 := [RData []]), wr := [WRoom 1]\<rparr>"

definition world_typing :: world where
  "world_typing = world0\<lparr>sel := [SReady {0}, SReady {0}],
     rd := (\<lambda>fd. [])(0 := [RData [104, 105], RData []]), wr := [WRoom 1, WRoom 1]\<rparr>"

definition world_ready :: world where
  "world_ready = world0\<lparr>rd := (\<lambda>fd. [])(3 := [RData [65]]), wr := [WRoom 5], cl := [None],
     acc := [AConn 7], sel := [SReady {3}]\<rparr>"

definition world_pipe :: world where
  "world_pipe = world0\<lparr>wr := [WFail EPIPE], cl := [None]\<rparr>"

definition world_both :: "byte list \<Rightarrow> wr_event list \<Rightarrow> world" where
  "world_both typed wevs = world0\<lparr>sel := [SReady {0, 3}],
     rd := (\<lambda>fd. [])(0 := [RData typed], 3 := [RData [120]]), wr := wevs\<rparr>"

section \<open>Properties of writen\<close>

lemma unat_rc: "m \<le> MAX_RW_COUNT \<Longrightarrow> unat (of_nat m :: size_t) = m"
  by (simp add: MAX_RW_COUNT_def unat_of_nat)

lemma load_append: "load p a m @ load (p + a) b m = load p (a + b) m"
proof -
  have "[p ..< (p + a) + b] = [p ..< p + a] @ [p + a ..< (p + a) + b]"
    by (rule upt_add_eq_append) simp
  then have "map m [p ..< p + (a + b)] = map m [p ..< p + a] @ map m [p + a ..< p + a + b]"
    by (simp only: add.assoc map_append)
  then show ?thesis by (simp only: load_def)
qed

lemma sys_write_Ret:
  "sys_write fd buf count w = Some (rc, w0) \<Longrightarrow> rc \<noteq> - 1 \<Longrightarrow>
   (\<exists>m. rc = int m \<and> m \<le> unat count \<and> m \<le> MAX_RW_COUNT \<and>
        out w0 fd = out w fd @ load buf m (mem w))"
  by (auto simp: sys_write_def Let_def split: list.splits wr_event.splits)

lemma Write_Ret:
  "Write fd buf count w = Ret rc w1 \<Longrightarrow>
   unat rc \<le> unat count \<and> unat rc \<le> MAX_RW_COUNT \<and>
   out w1 fd = out w fd @ load buf (unat rc) (mem w)"
proof (induction fd buf count w rule: Write.induct)
  case (1 fd buf count w)
  show ?case
  proof (cases "sys_write fd buf count w")
    case None
    with "1.prems" show ?thesis by (simp add: Write.simps [of fd buf count w])
  next
    case (Some r)
    obtain rc0 w0 where r: "r = (rc0, w0)" by (cases r)
    show ?thesis
    proof (cases "rc0 \<noteq> - 1")
      case True
      from sys_write_Ret [OF Some [unfolded r] True] obtain m where
        m: "rc0 = int m" "m \<le> unat count" "m \<le> MAX_RW_COUNT"
           "out w0 fd = out w fd @ load buf m (mem w)" by blast
      from "1.prems" Some r True have "rc = word_of_int rc0" "w1 = w0"
        by (simp_all add: Write.simps [of fd buf count w])
      with m show ?thesis by (simp add: unat_rc)
    next
      case False
      with "1.prems" Some r have e: "errno w0 = EINTR" and rec: "Write fd buf count w0 = Ret rc w1"
        by (auto simp: Write.simps [of fd buf count w] error_def split: if_splits)
      have same: "out w0 = out w" "mem w0 = mem w"
        using Some r False
        by (auto simp: sys_write_def Let_def split: list.splits wr_event.splits)
      from "1.IH" [OF Some r [symmetric] _ e rec] False same show ?thesis by simp
    qed
  qed
qed

lemma writen_loop_Ret:
  "writen_loop fd p n w = Ret u w1 \<Longrightarrow> out w1 fd = out w fd @ load p (unat n) (mem w)"
proof (induction fd p n w rule: writen_loop.induct)
  case (1 fd p n w)
  show ?case
  proof (cases "n = 0")
    case True
    with "1.prems" show ?thesis by (simp add: writen_loop.simps [of fd p 0 w] load_def)
  next
    case False
    from "1.prems" False obtain rc w0 where W: "Write fd p n w = Ret rc w0"
      and rec: "writen_loop fd (p + unat rc) (n - rc) w0 = Ret u w1"
      by (auto simp: writen_loop.simps [of fd p n w] split: outcome.splits)
    from Write_Ret [OF W] have le: "unat rc \<le> unat n"
      and o: "out w0 fd = out w fd @ load p (unat rc) (mem w)" by simp_all
    have m: "mem w0 = mem w" using Write_frame [of fd w p n] W by (simp add: write_frame_def)
    have sub: "unat (n - rc) = unat n - unat rc"
      using le by (simp add: unat_sub word_le_nat_alt)
    from "1.IH" [OF False W rec] o m sub le show ?thesis
      by (simp add: load_append)
  qed
qed

lemma Write_progress_aux:
  "wr w = evs \<Longrightarrow> count \<noteq> 0 \<Longrightarrow> unat count \<le> room evs \<Longrightarrow>
   \<exists>rc w0. Write fd buf count w = Ret rc w0 \<and> unat count - unat rc \<le> room (wr w0)"
proof (induction evs arbitrary: w)
  case Nil
  then show ?case by (simp add: unat_eq_zero)
next
  case (Cons ev evs)
  show ?case
  proof (cases ev)
    case (WFail e)
    with Cons.prems have e: "e = EINTR" by (auto split: if_splits simp: unat_eq_zero)
    let ?w0 = "w\<lparr>wr := evs, errno := EINTR\<rparr>"
    have unfold: "Write fd buf count w = Write fd buf count ?w0"
      using Cons.prems(1) WFail e
      by (simp add: Write.simps [of fd buf count w] sys_write_def)
    have "\<exists>rc w0. Write fd buf count ?w0 = Ret rc w0 \<and> unat count - unat rc \<le> room (wr w0)"
      using Cons.prems WFail e by (intro Cons.IH) simp_all
    with unfold show ?thesis by simp
  next
    case (WRoom k)
    let ?m = "min k (min (unat count) MAX_RW_COUNT)"
    let ?w0 = "w\<lparr>wr := evs, out := (out w)(fd := out w fd @ load buf ?m (mem w))\<rparr>"
    have "Write fd buf count w = Ret (of_nat ?m) ?w0"
      using Cons.prems(1) WRoom
      by (simp add: Write.simps [of fd buf count w] sys_write_def Let_def)
    moreover have "unat (of_nat ?m :: size_t) = ?m" by (rule unat_rc) simp
    moreover have "unat count - ?m \<le> room evs"
      using Cons.prems(3) WRoom by (auto simp: min_def)
    ultimately show ?thesis by simp
  qed
qed

lemma writen_loop_returns:
  "unat n \<le> room (wr w) \<Longrightarrow> \<exists>w1. writen_loop fd p n w = Ret () w1"
proof (induction fd p n w rule: writen_loop.induct)
  case (1 fd p n w)
  show ?case
  proof (cases "n = 0")
    case True
    then show ?thesis by (simp add: writen_loop.simps [of fd p 0 w])
  next
    case False
    from Write_progress_aux [OF refl False "1.prems", of fd p] obtain rc w0 where
      W: "Write fd p n w = Ret rc w0" and r: "unat n - unat rc \<le> room (wr w0)" by blast
    from Write_Ret [OF W] have le: "unat rc \<le> unat n" by simp
    have sub: "unat (n - rc) = unat n - unat rc"
      using le by (simp add: unat_sub word_le_nat_alt)
    from "1.IH" [OF False W] r sub
    obtain w1 where "writen_loop fd (p + unat rc) (n - rc) w0 = Ret () w1" by auto
    with False W show ?thesis by (simp add: writen_loop.simps [of fd p n w])
  qed
qed

lemma writen_client_Ret:
  "writen_client fd buf count w = Ret r w1 \<Longrightarrow>
   r = count \<and> out w1 fd = out w fd @ load buf (unat count) (mem w) \<and> write_frame fd w w1"
proof -
  assume a: "writen_client fd buf count w = Ret r w1"
  then have nn: "buf \<noteq> NULL" by (auto simp: writen_client_def error_def)
  with a obtain u where l: "writen_loop fd buf count w = Ret u w1" and r: "r = count"
    by (auto simp: writen_client_def split: outcome.splits)
  from writen_loop_Ret [OF l] r writen_client_frame [of fd w buf count] a show ?thesis by simp
qed

lemma writen_client_delivers:
  assumes "buf \<noteq> NULL" and "unat count \<le> room (wr w)"
  shows "\<exists>w1. writen_client fd buf count w = Ret count w1 \<and>
      out w1 fd = out w fd @ load buf (unat count) (mem w) \<and> write_frame fd w w1"
proof -
  from writen_loop_returns [OF assms(2)] obtain w1 where
    "writen_loop fd buf count w = Ret () w1" by blast
  with assms(1) have r: "writen_client fd buf count w = Ret count w1"
    by (simp add: writen_client_def)
  from writen_client_Ret [OF r] r show ?thesis by simp
qed

text \<open>
  C9. Calling \<^verbatim>\<open>writen\<close> (of either file) with a null buffer sets \<^verbatim>\<open>errno\<close> to
  \<^verbatim>\<open>EFAULT\<close> and calls \<^verbatim>\<open>error("writen()")\<close>: the message is printed with the
  invalid-address error, the process exits with status -1, the call does not return, and
  nothing else of the world has changed: no byte was written to any descriptor.
\<close>

theorem writen_null_buffer_fatal:
  "writen_server socket NULL count w =
     Exit (- 1) (w\<lparr>errno := EFAULT, stderr := stderr w @ [(''writen()'', EFAULT)]\<rparr>) \<and>
   writen_client socket NULL count w =
     Exit (- 1) (w\<lparr>errno := EFAULT, stderr := stderr w @ [(''writen()'', EFAULT)]\<rparr>)"
  by (simp add: writen_server_def writen_client_def error_def perror_def)

text \<open>
  C1. Full delivery holds for \<^verbatim>\<open>writen\<close> of client.c (\<open>writen_client_Ret\<close>,
  \<open>writen_client_delivers\<close>) and fails for \<^verbatim>\<open>writen\<close> of server3.c, which asks
  \<^verbatim>\<open>Write\<close> for \<open>count\<close> bytes in every turn. The buffer holds the two bytes
  \<open>97, 98\<close> at addresses 100 and 101, the byte after it is \<open>99\<close>, and \<open>count\<close> is 2. The
  first \<^verbatim>\<open>write\<close> takes one byte, the second has room for two, the third fails with
  \<^verbatim>\<open>EFAULT\<close>. The server's \<^verbatim>\<open>writen\<close> delivers \<open>97, 98, 99\<close>: the second call writes
  two bytes from address 101, \<open>n\<close> wraps around to \<open>2^64 - 1\<close>, the loop goes on and the
  third call ends the process. On the same input the client's \<^verbatim>\<open>writen\<close> delivers
  \<open>97, 98\<close> and returns 2.
\<close>

theorem writen_server_overrun:
  "writen_server 4 100 2
     (world0\<lparr>wr := [WRoom 1, WRoom 2, WFail EFAULT],
             mem := (\<lambda>a. 0)(100 := 97, 101 := 98, 102 := 99)\<rparr>) =
   Exit (- 1)
     (world0\<lparr>wr := [], mem := (\<lambda>a. 0)(100 := 97, 101 := 98, 102 := 99),
             out := (\<lambda>fd. [])(4 := [97, 98, 99]), errno := EFAULT,
             stderr := [(''write()'', EFAULT)]\<rparr>) \<and>
   writen_client 4 100 2
     (world0\<lparr>wr := [WRoom 1, WRoom 2, WFail EFAULT],
             mem := (\<lambda>a. 0)(100 := 97, 101 := 98, 102 := 99)\<rparr>) =
   Ret 2
     (world0\<lparr>wr := [WFail EFAULT], mem := (\<lambda>a. 0)(100 := 97, 101 := 98, 102 := 99),
             out := (\<lambda>fd. [])(4 := [97, 98])\<rparr>)"
  by (simp add: writen_server_def writen_client_def NULL_def writen_loop_server.simps
      writen_loop.simps Write.simps sys_write_def world0_def MAX_RW_COUNT_def load_def
      error_def perror_def)

section \<open>Properties of reads\<close>

lemma line_len_0 [simp]: "line_len xs 0 = 0"
  by (cases xs) simp_all

lemma line_len_le: "line_len xs k \<le> k"
  by (induction xs k rule: line_len.induct) simp_all

lemma line_len_le_length: "line_len xs k \<le> length xs"
  by (induction xs k rule: line_len.induct) simp_all

lemma read_frame_mem [simp]: "read_frame fd w (w1\<lparr>mem := m\<rparr>) = read_frame fd w w1"
  by (simp add: read_frame_def others_def)

lemma Read1_data:
  "rd w fd = evs \<Longrightarrow> stream_bytes evs = b # bs \<Longrightarrow>
   \<exists>w1. Read fd p 1 w = Ret 1 w1 \<and> (\<forall>a. mem w1 a = (if a = p then b else mem w a)) \<and>
        stream_bytes (rd w1 fd) = bs \<and> stream_end (rd w1 fd) = stream_end evs"
proof (induction evs arbitrary: w)
  case Nil
  then show ?case by simp
next
  case (Cons ev evs)
  show ?case
  proof (cases ev)
    case (RFail e)
    with Cons.prems have e: "e = EINTR" by (auto split: if_splits)
    let ?w0 = "w\<lparr>rd := (rd w)(fd := evs), errno := EINTR\<rparr>"
    have unfold: "Read fd p 1 w = Read fd p 1 ?w0"
      using Cons.prems(1) RFail e by (simp add: Read.simps [of fd p 1 w] sys_read_def)
    have "\<exists>w1. Read fd p 1 ?w0 = Ret 1 w1 \<and>
        (\<forall>a. mem w1 a = (if a = p then b else mem ?w0 a)) \<and>
        stream_bytes (rd w1 fd) = bs \<and> stream_end (rd w1 fd) = stream_end evs"
      using Cons.prems RFail e by (intro Cons.IH) simp_all
    with unfold RFail e show ?thesis by auto
  next
    case (RData cs)
    with Cons.prems obtain cs' where cs: "cs = b # cs'" and bs: "bs = cs' @ stream_bytes evs"
      by (cases cs) (auto split: if_splits)
    let ?w0 = "w\<lparr>rd := (rd w)(fd := (if cs' = [] then evs else RData cs' # evs)),
                  mem := (mem w)(p := b)\<rparr>"
    have "Read fd p 1 w = Ret 1 ?w0"
      using Cons.prems(1) RData cs
      by (simp add: Read.simps [of fd p 1 w] sys_read_def Let_def MAX_RW_COUNT_def)
    then show ?thesis using RData cs bs by simp
  qed
qed

lemma Read1_eof:
  "rd w fd = evs \<Longrightarrow> stream_bytes evs = [] \<Longrightarrow> stream_end evs = AtEof \<Longrightarrow>
   \<exists>w1. Read fd p 1 w = Ret 0 w1 \<and> mem w1 = mem w"
proof (induction evs arbitrary: w)
  case Nil
  then show ?case by simp
next
  case (Cons ev evs)
  show ?case
  proof (cases ev)
    case (RFail e)
    with Cons.prems have e: "e = EINTR" by (auto split: if_splits)
    let ?w0 = "w\<lparr>rd := (rd w)(fd := evs), errno := EINTR\<rparr>"
    have unfold: "Read fd p 1 w = Read fd p 1 ?w0"
      using Cons.prems(1) RFail e by (simp add: Read.simps [of fd p 1 w] sys_read_def)
    have "\<exists>w1. Read fd p 1 ?w0 = Ret 0 w1 \<and> mem w1 = mem ?w0"
      using Cons.prems RFail e by (intro Cons.IH) simp_all
    with unfold show ?thesis by simp
  next
    case (RData cs)
    with Cons.prems have cs: "cs = []" by (auto split: if_splits)
    have "Read fd p 1 w = Ret 0 (w\<lparr>rd := (rd w)(fd := evs), mem := mem w\<rparr>)"
      using Cons.prems(1) RData cs
      by (simp add: Read.simps [of fd p 1 w] sys_read_def Let_def)
    then show ?thesis by simp
  qed
qed

lemma full_Suc:
  "x \<noteq> 10 \<Longrightarrow> full (x # xs) (Suc k) = full xs k"
  by (cases "line_len xs k") (auto simp: full_def)

lemma reads_loop_spec:
  "stream_bytes (rd w fd) = xs \<Longrightarrow>
   full xs (unat sz - unat n) \<or> stream_end (rd w fd) = AtEof \<Longrightarrow>
   \<exists>r w1. reads_loop fd sz p n w = Ret r w1 \<and>
     unat r = unat n + line_len xs (unat sz - unat n) \<and>
     (\<forall>a. mem w1 a =
        (if a = p + line_len xs (unat sz - unat n) then 0
         else if p \<le> a \<and> a < p + line_len xs (unat sz - unat n) then xs ! (a - p)
         else mem w a)) \<and>
     read_frame fd w w1 \<and>
     (full xs (unat sz - unat n) \<longrightarrow>
        stream_bytes (rd w1 fd) = drop (line_len xs (unat sz - unat n)) xs)"
proof (induction xs arbitrary: n p w)
  case Nil
  show ?case
  proof (cases "n < sz")
    case False
    then have "reads_loop fd sz p n w = Ret n (w\<lparr>mem := (mem w)(p := 0)\<rparr>)"
      by (simp add: reads_loop.simps [of fd sz p n w] reads_end_def)
    with Nil show ?thesis by simp
  next
    case True
    then have k: "0 < unat sz - unat n" by (simp add: word_less_nat_alt)
    with Nil.prems have eof: "stream_end (rd w fd) = AtEof" by (auto simp: full_def)
    from Read1_eof [OF refl _ eof, of p] Nil.prems(1) obtain w0 where
      R: "Read fd p 1 w = Ret 0 w0" and m: "mem w0 = mem w" by auto
    have fr: "read_frame fd w w0" using Read_frame [of fd w p 1] R by simp
    have "reads_loop fd sz p n w = Ret n (w0\<lparr>mem := (mem w0)(p := 0)\<rparr>)"
      using True R by (simp add: reads_loop.simps [of fd sz p n w] reads_end_def)
    with m fr k show ?thesis by (auto simp: full_def)
  qed
next
  case (Cons x xs)
  show ?case
  proof (cases "n < sz")
    case False
    then have k: "unat sz - unat n = 0" by (simp add: word_less_nat_alt)
    from False have "reads_loop fd sz p n w = Ret n (w\<lparr>mem := (mem w)(p := 0)\<rparr>)"
      by (simp add: reads_loop.simps [of fd sz p n w] reads_end_def)
    with Cons.prems(1) k show ?thesis by simp
  next
    case True
    then have lt: "unat n < unat sz" by (simp add: word_less_nat_alt)
    then obtain k where k: "unat sz - unat n = Suc k" by (cases "unat sz - unat n") simp_all
    have sn: "unat (n + 1) = unat n + 1" using True by (rule size_t_succ)
    then have k': "unat sz - unat (n + 1) = k" using k by simp
    from Read1_data [OF refl Cons.prems(1), of p] obtain w0 where
      R: "Read fd p 1 w = Ret 1 w0" and m: "\<forall>a. mem w0 a = (if a = p then x else mem w a)"
      and sb: "stream_bytes (rd w0 fd) = xs" and se: "stream_end (rd w0 fd) = stream_end (rd w fd)"
      by blast
    have fr: "read_frame fd w w0" using Read_frame [of fd w p 1] R by simp
    show ?thesis
    proof (cases "x = 10")
      case True
      have "reads_loop fd sz p n w = Ret (n + 1) (w0\<lparr>mem := (mem w0)(p + 1 := 0)\<rparr>)"
        using \<open>n < sz\<close> R m True
        by (simp add: reads_loop.simps [of fd sz p n w] reads_end_def)
      with m fr sb sn k True show ?thesis by auto
    next
      case False
      have unfold: "reads_loop fd sz p n w = reads_loop fd sz (p + 1) (n + 1) w0"
        using \<open>n < sz\<close> R m False
        by (simp add: reads_loop.simps [of fd sz p n w])
      have ok: "full xs (unat sz - unat (n + 1)) \<or> stream_end (rd w0 fd) = AtEof"
        using Cons.prems(2) k k' se False by (simp add: full_Suc)
      from Cons.IH [OF sb ok, of "p + 1"] obtain r w1 where
        r: "reads_loop fd sz (p + 1) (n + 1) w0 = Ret r w1"
        and u: "unat r = unat (n + 1) + line_len xs k"
        and mm: "\<forall>a. mem w1 a =
            (if a = p + 1 + line_len xs k then 0
             else if p + 1 \<le> a \<and> a < p + 1 + line_len xs k then xs ! (a - (p + 1))
             else mem w0 a)"
        and fr1: "read_frame fd w0 w1"
        and rest: "full xs k \<longrightarrow> stream_bytes (rd w1 fd) = drop (line_len xs k) xs"
        unfolding k' by blast
      have L: "line_len (x # xs) (Suc k) = Suc (line_len xs k)" using False by simp
      have mem': "\<forall>a. mem w1 a =
          (if a = p + Suc (line_len xs k) then 0
           else if p \<le> a \<and> a < p + Suc (line_len xs k) then (x # xs) ! (a - p)
           else mem w a)"
        using mm m by (auto simp: nth_Cons')
      have fr': "read_frame fd w w1" using fr fr1 by (rule read_frame_trans)
      have rest': "full (x # xs) (Suc k) \<longrightarrow>
          stream_bytes (rd w1 fd) = drop (Suc (line_len xs k)) (x # xs)"
        using rest False by (simp add: full_Suc)
      from unfold r u sn mem' fr' rest' show ?thesis
        unfolding k L by (intro exI [of _ r] exI [of _ w1]) simp
    qed
  qed
qed


lemma line_len_newline:
  "j < length xs \<Longrightarrow> xs ! j = 10 \<Longrightarrow> 10 \<notin> set (take j xs) \<Longrightarrow> j < k \<Longrightarrow>
   line_len xs k = Suc j"
proof (induction xs k arbitrary: j rule: line_len.induct)
  case (1 k)
  then show ?case by simp
next
  case (2 x xs)
  then show ?case by simp
next
  case (3 x xs k)
  show ?case
  proof (cases j)
    case 0
    with "3.prems" show ?thesis by simp
  next
    case (Suc j')
    with "3.prems" have "x \<noteq> 10" by auto
    moreover from Suc "3.prems" have "line_len xs k = Suc j'"
      using \<open>x \<noteq> 10\<close> by (intro "3.IH") auto
    ultimately show ?thesis using Suc by simp
  qed
qed

lemma line_len_short: "10 \<notin> set xs \<Longrightarrow> length xs \<le> k \<Longrightarrow> line_len xs k = length xs"
  by (induction xs k rule: line_len.induct) auto

lemma reads_spec:
  assumes "s \<noteq> NULL" and "sz \<noteq> 0" and "stream_bytes (rd w fd) = xs"
    and "full xs (unat sz - 1) \<or> stream_end (rd w fd) = AtEof"
  shows "\<exists>r w1. reads fd s sz w = Ret r w1 \<and>
     unat r = line_len xs (unat sz - 1) \<and>
     load s (line_len xs (unat sz - 1)) (mem w1) = take (line_len xs (unat sz - 1)) xs \<and>
     mem w1 (s + line_len xs (unat sz - 1)) = 0 \<and>
     (\<forall>a. a < s \<or> s + line_len xs (unat sz - 1) < a \<longrightarrow> mem w1 a = mem w a) \<and>
     read_frame fd w w1 \<and>
     (full xs (unat sz - 1) \<longrightarrow>
        stream_bytes (rd w1 fd) = drop (line_len xs (unat sz - 1)) xs)"
proof -
  let ?L = "line_len xs (unat sz - 1)"
  have u: "unat (sz - 1) - unat (0 :: size_t) = unat sz - 1"
    using assms(2) by (simp add: unat_minus_one)
  from reads_loop_spec [of w fd xs "sz - 1" 0 s] assms(3,4) u
  obtain r w1 where r: "reads_loop fd (sz - 1) s 0 w = Ret r w1"
    and ur: "unat r = ?L"
    and m: "\<forall>a. mem w1 a =
        (if a = s + ?L then 0 else if s \<le> a \<and> a < s + ?L then xs ! (a - s) else mem w a)"
    and fr: "read_frame fd w w1"
    and rest: "full xs (unat sz - 1) \<longrightarrow> stream_bytes (rd w1 fd) = drop ?L xs"
    by auto
  have R: "reads fd s sz w = Ret r w1" using assms(1,2) r by (simp add: reads_def)
  have len: "?L \<le> length xs" by (rule line_len_le_length)
  have ld: "load s ?L (mem w1) = take ?L xs"
    unfolding load_def using m len by (intro nth_equalityI) auto
  from R ur ld m fr rest show ?thesis
    by (intro exI [of _ r] exI [of _ w1]) simp
qed




text \<open>
  C4. \<^verbatim>\<open>reads\<close> with a buffer that is not null, on a stream whose first newline is its
  byte \<open>j\<close>, with \<open>j + 1 \<le> sz - 1\<close>: it returns \<open>j + 1\<close>, the buffer holds the bytes up
  to and including the newline, the newline is the last of them, a zero byte follows it
  at once, and the stream is left with the bytes after the newline.
\<close>

theorem reads_newline:
  "s \<noteq> NULL \<and> j < length (stream_bytes (rd w fd)) \<and> stream_bytes (rd w fd) ! j = 10 \<and>
   10 \<notin> set (take j (stream_bytes (rd w fd))) \<and> Suc j \<le> unat sz - 1 \<longrightarrow>
   (\<exists>r w1. reads fd s sz w = Ret r w1 \<and> unat r = Suc j \<and>
      load s (Suc j) (mem w1) = take (Suc j) (stream_bytes (rd w fd)) \<and>
      mem w1 (s + j) = 10 \<and> mem w1 (s + Suc j) = 0 \<and>
      (\<forall>a. a < s \<or> s + Suc j < a \<longrightarrow> mem w1 a = mem w a) \<and>
      stream_bytes (rd w1 fd) = drop (Suc j) (stream_bytes (rd w fd)) \<and>
      read_frame fd w w1)"
proof
  let ?xs = "stream_bytes (rd w fd)"
  let ?k = "unat sz - 1"
  assume a: "s \<noteq> NULL \<and> j < length ?xs \<and> ?xs ! j = 10 \<and> 10 \<notin> set (take j ?xs) \<and> Suc j \<le> ?k"
  then have nz: "sz \<noteq> 0" by (auto simp: unat_eq_zero)
  from a have L: "line_len ?xs ?k = Suc j" by (intro line_len_newline) auto
  with a have f: "full ?xs ?k" by (simp add: full_def)
  from reads_spec [of s sz w fd ?xs] a nz f obtain r w1 where
    R: "reads fd s sz w = Ret r w1" and ur: "unat r = Suc j"
    and ld: "load s (Suc j) (mem w1) = take (Suc j) ?xs" and z: "mem w1 (s + Suc j) = 0"
    and out: "\<forall>a. a < s \<or> s + Suc j < a \<longrightarrow> mem w1 a = mem w a"
    and fr: "read_frame fd w w1"
    and rest: "stream_bytes (rd w1 fd) = drop (Suc j) ?xs"
    unfolding L by blast
  have "load s (Suc j) (mem w1) ! j = take (Suc j) ?xs ! j" using ld by simp
  then have nl: "mem w1 (s + j) = 10" using a by (simp add: load_def nth_append)
  from R ur ld nl z out fr rest
  show "\<exists>r w1. reads fd s sz w = Ret r w1 \<and> unat r = Suc j \<and>
      load s (Suc j) (mem w1) = take (Suc j) ?xs \<and>
      mem w1 (s + j) = 10 \<and> mem w1 (s + Suc j) = 0 \<and>
      (\<forall>a. a < s \<or> s + Suc j < a \<longrightarrow> mem w1 a = mem w a) \<and>
      stream_bytes (rd w1 fd) = drop (Suc j) ?xs \<and> read_frame fd w w1"
    by (intro exI [of _ r] exI [of _ w1]) simp
qed

theorem reads_newline_witness:
  "\<exists>r w1. reads 3 100 8 world_line = Ret r w1 \<and> unat r = 3 \<and>
      load 100 3 (mem w1) = [104, 105, 10] \<and> mem w1 102 = 10 \<and> mem w1 103 = 0 \<and>
      (\<forall>a. a < 100 \<or> 103 < a \<longrightarrow> mem w1 a = mem world_line a) \<and>
      stream_bytes (rd w1 3) = [120] \<and> read_frame 3 world_line w1"
  using reads_newline [of 100 2 world_line 3 8]
  by (simp add: world_line_def world0_def NULL_def)

text \<open>
  C5. \<^verbatim>\<open>reads\<close> with a buffer that is not null, on a stream that ends (a read returns
  0) after fewer than \<open>sz - 1\<close> bytes, none of them a newline: it returns the number of
  bytes received (possibly 0), the buffer holds exactly these bytes, with no line
  terminator added, and a zero byte right after them.
\<close>

theorem reads_end_of_stream:
  "s \<noteq> NULL \<and> stream_end (rd w fd) = AtEof \<and> 10 \<notin> set (stream_bytes (rd w fd)) \<and>
   length (stream_bytes (rd w fd)) < unat sz - 1 \<longrightarrow>
   (\<exists>r w1. reads fd s sz w = Ret r w1 \<and> unat r = length (stream_bytes (rd w fd)) \<and>
      load s (unat r) (mem w1) = stream_bytes (rd w fd) \<and>
      mem w1 (s + unat r) = 0 \<and>
      (\<forall>a. a < s \<or> s + unat r < a \<longrightarrow> mem w1 a = mem w a) \<and>
      read_frame fd w w1)"
proof
  let ?xs = "stream_bytes (rd w fd)"
  let ?k = "unat sz - 1"
  assume a: "s \<noteq> NULL \<and> stream_end (rd w fd) = AtEof \<and> 10 \<notin> set ?xs \<and> length ?xs < ?k"
  then have nz: "sz \<noteq> 0" by (auto simp: unat_eq_zero)
  from a have L: "line_len ?xs ?k = length ?xs" by (intro line_len_short) auto
  from reads_spec [of s sz w fd ?xs] a nz obtain r w1 where
    R: "reads fd s sz w = Ret r w1" and ur: "unat r = length ?xs"
    and ld: "load s (length ?xs) (mem w1) = take (length ?xs) ?xs"
    and z: "mem w1 (s + length ?xs) = 0"
    and out: "\<forall>a. a < s \<or> s + length ?xs < a \<longrightarrow> mem w1 a = mem w a"
    and fr: "read_frame fd w w1"
    unfolding L by blast
  from R ur ld z out fr
  show "\<exists>r w1. reads fd s sz w = Ret r w1 \<and> unat r = length ?xs \<and>
      load s (unat r) (mem w1) = ?xs \<and> mem w1 (s + unat r) = 0 \<and>
      (\<forall>a. a < s \<or> s + unat r < a \<longrightarrow> mem w1 a = mem w a) \<and> read_frame fd w w1"
    by (intro exI [of _ r] exI [of _ w1]) simp
qed

theorem reads_end_of_stream_witness:
  "(\<exists>r w1. reads 3 100 8 world_closing = Ret r w1 \<and> unat r = 2 \<and>
      load 100 (unat r) (mem w1) = [104, 105] \<and> mem w1 (100 + unat r) = 0 \<and>
      (\<forall>a. a < 100 \<or> 100 + unat r < a \<longrightarrow> mem w1 a = mem world_closing a) \<and>
      read_frame 3 world_closing w1) \<and>
   (\<exists>r w1. reads 3 100 8 (world0\<lparr>rd := (\<lambda>fd. [])(3 := [RData []])\<rparr>) = Ret r w1 \<and>
      unat r = 0 \<and> mem w1 100 = 0)"
  using reads_end_of_stream [of 100 world_closing 3 8]
    reads_end_of_stream [of 100 "world0\<lparr>rd := (\<lambda>fd. [])(3 := [RData []])\<rparr>" 3 8]
  by (auto simp: world_closing_def world0_def NULL_def)

section \<open>Properties of the wrappers\<close>

lemma sys_read_Ret:
  "sys_read fd buf count w = Some (rc, w0) \<Longrightarrow> rc \<noteq> - 1 \<Longrightarrow>
   (\<exists>m. rc = int m \<and> m \<le> unat count \<and> m \<le> MAX_RW_COUNT)"
  by (auto simp: sys_read_def Let_def split: list.splits rd_event.splits)

lemma Read_Ret:
  "Read fd buf count w = Ret rc w1 \<Longrightarrow> unat rc \<le> unat count \<and> unat rc \<le> MAX_RW_COUNT"
proof (induction fd buf count w rule: Read.induct)
  case (1 fd buf count w)
  show ?case
  proof (cases "sys_read fd buf count w")
    case None
    with "1.prems" show ?thesis by (simp add: Read.simps [of fd buf count w])
  next
    case (Some r)
    obtain rc0 w0 where r: "r = (rc0, w0)" by (cases r)
    show ?thesis
    proof (cases "rc0 \<noteq> - 1")
      case True
      from sys_read_Ret [OF Some [unfolded r] True] obtain m where
        m: "rc0 = int m" "m \<le> unat count" "m \<le> MAX_RW_COUNT" by blast
      from "1.prems" Some r True have "rc = word_of_int rc0"
        by (simp add: Read.simps [of fd buf count w])
      with m show ?thesis by (simp add: unat_rc)
    next
      case False
      with "1.prems" Some r have e: "errno w0 = EINTR" and rec: "Read fd buf count w0 = Ret rc w1"
        by (auto simp: Read.simps [of fd buf count w] error_def split: if_splits)
      from "1.IH" [OF Some r [symmetric] _ e rec] False show ?thesis by simp
    qed
  qed
qed

lemma not_error_code: "unat v \<le> MAX_RW_COUNT \<Longrightarrow> v \<noteq> - 1" for v :: size_t
  by (auto simp: MAX_RW_COUNT_def unsigned_minus_1_eq_mask mask_eq_exp_minus_1)

lemma Accept_Ret: "Accept socket w = Ret rc w1 \<Longrightarrow> 0 \<le> rc"
proof (induction socket w rule: Accept.induct)
  case (1 socket w)
  show ?case
  proof (cases "sys_accept socket w")
    case None
    with "1.prems" show ?thesis by (simp add: Accept.simps [of socket w])
  next
    case (Some r)
    obtain rc0 w0 where r: "r = (rc0, w0)" by (cases r)
    show ?thesis
    proof (cases "rc0 \<noteq> - 1")
      case True
      have "0 \<le> rc0" using Some r True
        by (auto simp: sys_accept_def split: list.splits acc_event.splits)
      with "1.prems" Some r True show ?thesis by (simp add: Accept.simps [of socket w])
    next
      case False
      with "1.prems" Some r have e: "errno w0 = EINTR \<or> errno w0 = ECONNABORTED"
        and rec: "Accept socket w0 = Ret rc w1"
        by (auto simp: Accept.simps [of socket w] error_def split: if_splits)
      from "1.IH" [OF Some r [symmetric] _ e rec] False show ?thesis by simp
    qed
  qed
qed

lemma Select_Ret: "Select n readfds w = Ret x w1 \<Longrightarrow> 0 \<le> fst x \<and> snd x \<subseteq> readfds"
proof (induction n readfds w rule: Select.induct)
  case (1 n readfds w)
  show ?case
  proof (cases "sys_select n readfds w")
    case None
    with "1.prems" show ?thesis by (simp add: Select.simps [of n readfds w])
  next
    case (Some r)
    obtain rc0 fds0 w0 where r: "r = (rc0, fds0, w0)" by (cases r)
    have sub: "fds0 \<subseteq> readfds" using Some r
      by (auto simp: sys_select_def Let_def split: list.splits sel_event.splits)
    show ?thesis
    proof (cases "rc0 \<noteq> - 1")
      case True
      have "0 \<le> rc0" using Some r True
        by (auto simp: sys_select_def Let_def split: list.splits sel_event.splits)
      with "1.prems" Some r True sub show ?thesis
        by (auto simp: Select.simps [of n readfds w])
    next
      case False
      with "1.prems" Some r have e: "errno w0 = EINTR"
        and rec: "Select n fds0 w0 = Ret x w1"
        by (auto simp: Select.simps [of n readfds w] error_def split: if_splits)
      from "1.IH" [OF Some r [symmetric] _ _ e rec] False sub show ?thesis by auto
    qed
  qed
qed

lemma Close_closed:
  "closed (final (Close fd w)) =
     (case Close fd w of Ret u w1 \<Rightarrow> closed w @ [fd] | Exit c w1 \<Rightarrow> closed w
      | Blocked w1 \<Rightarrow> closed w) \<and>
   close_frame w (final (Close fd w))"
proof (induction fd w rule: Close.induct)
  case (1 fd w)
  show ?case
  proof (cases "sys_close fd w")
    case None
    then show ?thesis by (simp add: Close.simps [of fd w] close_frame_def)
  next
    case (Some r)
    obtain rc0 w0 where r: "r = (rc0, w0)" by (cases r)
    have fr: "close_frame w w0" using Some r
      by (auto simp: sys_close_def close_frame_def split: list.splits option.splits)
    show ?thesis
    proof (cases "rc0 = 0")
      case True
      have "closed w0 = closed w @ [fd]" using Some r True
        by (auto simp: sys_close_def split: list.splits option.splits)
      with Some r True fr show ?thesis by (simp add: Close.simps [of fd w])
    next
      case False
      have c0: "closed w0 = closed w" using Some r False
        by (auto simp: sys_close_def split: list.splits option.splits)
      show ?thesis
      proof (cases "errno w0 = EINTR")
        case True
        from "1.IH" [OF Some r [symmetric] False True] c0 fr Some r False True
        show ?thesis
          by (simp add: Close.simps [of fd w] close_frame_def split: outcome.splits)
      next
        case e: False
        with Some r False c0 fr show ?thesis
          by (simp add: Close.simps [of fd w] error_def perror_def close_frame_def)
      qed
    qed
  qed
qed

text \<open>
  C6. \<^verbatim>\<open>Read\<close>, \<^verbatim>\<open>Write\<close>, \<^verbatim>\<open>Close\<close>, \<^verbatim>\<open>Accept\<close> and \<^verbatim>\<open>Select\<close>. When the system
  call fails with \<^verbatim>\<open>EINTR\<close> (for \<^verbatim>\<open>Accept\<close> also with \<^verbatim>\<open>ECONNABORTED\<close>), the wrapper
  makes the same call again with the same arguments: its outcome is that of the wrapper
  in the world the failed call has left, where only that attempt is gone and \<^verbatim>\<open>errno\<close>
  is set. On any other failure it prints its message and the process exits with status
  -1: nothing is returned. A value that is returned is the result of a call that
  succeeded: for \<^verbatim>\<open>Read\<close> and \<^verbatim>\<open>Write\<close> a count of at most \<open>count\<close>, never the
  error value \<open>-1\<close>; for \<^verbatim>\<open>Accept\<close> a descriptor that is not negative; for
  \<^verbatim>\<open>Select\<close> a number that is not negative, with a set taken from the one asked for; and
  when \<^verbatim>\<open>Close\<close> returns the descriptor has been closed.
\<close>

theorem wrappers_retry_or_exit:
  "Read fd buf count (w\<lparr>rd := (rd w)(fd := RFail e # revs)\<rparr>) =
     (if e = EINTR then Read fd buf count (w\<lparr>rd := (rd w)(fd := revs), errno := EINTR\<rparr>)
      else Exit (- 1) (w\<lparr>rd := (rd w)(fd := revs), errno := e,
                         stderr := stderr w @ [(''read()'', e)]\<rparr>)) \<and>
   Write fd buf count (w\<lparr>wr := WFail e # wevs\<rparr>) =
     (if e = EINTR then Write fd buf count (w\<lparr>wr := wevs, errno := EINTR\<rparr>)
      else Exit (- 1) (w\<lparr>wr := wevs, errno := e, stderr := stderr w @ [(''write()'', e)]\<rparr>)) \<and>
   Close fd (w\<lparr>cl := Some e # cevs\<rparr>) =
     (if e = EINTR then Close fd (w\<lparr>cl := cevs, errno := EINTR\<rparr>)
      else Exit (- 1) (w\<lparr>cl := cevs, errno := e, stderr := stderr w @ [(''close()'', e)]\<rparr>)) \<and>
   Accept fd (w\<lparr>acc := AFail e # aevs\<rparr>) =
     (if e = EINTR \<or> e = ECONNABORTED then Accept fd (w\<lparr>acc := aevs, errno := e\<rparr>)
      else Exit (- 1) (w\<lparr>acc := aevs, errno := e, stderr := stderr w @ [(''accept()'', e)]\<rparr>)) \<and>
   Select n readfds (w\<lparr>sel := SFail e # sevs\<rparr>) =
     (if e = EINTR then Select n readfds (w\<lparr>sel := sevs, errno := EINTR\<rparr>)
      else Exit (- 1) (w\<lparr>sel := sevs, errno := e, stderr := stderr w @ [(''select()'', e)]\<rparr>)) \<and>
   (Read fd buf count w = Ret v w1 \<longrightarrow> unat v \<le> unat count \<and> v \<noteq> - 1) \<and>
   (Write fd buf count w = Ret v' w2 \<longrightarrow> unat v' \<le> unat count \<and> v' \<noteq> - 1) \<and>
   (Close fd w = Ret u w3 \<longrightarrow> closed w3 = closed w @ [fd]) \<and>
   (Accept fd w = Ret c w4 \<longrightarrow> 0 \<le> c) \<and>
   (Select n readfds w = Ret (k, fds) w5 \<longrightarrow> 0 \<le> k \<and> fds \<subseteq> readfds)"
proof (intro conjI impI)
  show "Read fd buf count (w\<lparr>rd := (rd w)(fd := RFail e # revs)\<rparr>) =
     (if e = EINTR then Read fd buf count (w\<lparr>rd := (rd w)(fd := revs), errno := EINTR\<rparr>)
      else Exit (- 1) (w\<lparr>rd := (rd w)(fd := revs), errno := e,
                         stderr := stderr w @ [(''read()'', e)]\<rparr>))"
    by (simp add: Read.simps [of fd buf count "w\<lparr>rd := (rd w)(fd := RFail e # revs)\<rparr>"]
        sys_read_def error_def perror_def)
  show "Write fd buf count (w\<lparr>wr := WFail e # wevs\<rparr>) =
     (if e = EINTR then Write fd buf count (w\<lparr>wr := wevs, errno := EINTR\<rparr>)
      else Exit (- 1) (w\<lparr>wr := wevs, errno := e, stderr := stderr w @ [(''write()'', e)]\<rparr>))"
    by (simp add: Write.simps [of fd buf count "w\<lparr>wr := WFail e # wevs\<rparr>"]
        sys_write_def error_def perror_def)
  show "Close fd (w\<lparr>cl := Some e # cevs\<rparr>) =
     (if e = EINTR then Close fd (w\<lparr>cl := cevs, errno := EINTR\<rparr>)
      else Exit (- 1) (w\<lparr>cl := cevs, errno := e, stderr := stderr w @ [(''close()'', e)]\<rparr>))"
    by (simp add: Close.simps [of fd "w\<lparr>cl := Some e # cevs\<rparr>"]
        sys_close_def error_def perror_def)
  show "Accept fd (w\<lparr>acc := AFail e # aevs\<rparr>) =
     (if e = EINTR \<or> e = ECONNABORTED then Accept fd (w\<lparr>acc := aevs, errno := e\<rparr>)
      else Exit (- 1) (w\<lparr>acc := aevs, errno := e, stderr := stderr w @ [(''accept()'', e)]\<rparr>))"
    by (simp add: Accept.simps [of fd "w\<lparr>acc := AFail e # aevs\<rparr>"]
        sys_accept_def error_def perror_def)
  show "Select n readfds (w\<lparr>sel := SFail e # sevs\<rparr>) =
     (if e = EINTR then Select n readfds (w\<lparr>sel := sevs, errno := EINTR\<rparr>)
      else Exit (- 1) (w\<lparr>sel := sevs, errno := e, stderr := stderr w @ [(''select()'', e)]\<rparr>))"
    by (simp add: Select.simps [of n readfds "w\<lparr>sel := SFail e # sevs\<rparr>"]
        sys_select_def error_def perror_def)
next
  assume "Read fd buf count w = Ret v w1"
  from Read_Ret [OF this] show "unat v \<le> unat count" and "v \<noteq> - 1"
    by (simp_all add: not_error_code)
next
  assume "Write fd buf count w = Ret v' w2"
  from Write_Ret [OF this] show "unat v' \<le> unat count" and "v' \<noteq> - 1"
    by (simp_all add: not_error_code)
next
  assume "Close fd w = Ret u w3"
  with Close_closed [of fd w] show "closed w3 = closed w @ [fd]" by simp
next
  assume "Accept fd w = Ret c w4"
  then show "0 \<le> c" by (rule Accept_Ret)
next
  assume a: "Select n readfds w = Ret (k, fds) w5"
  from Select_Ret [OF a] show "0 \<le> k" and "fds \<subseteq> readfds" by simp_all
qed

theorem wrappers_retry_or_exit_witness:
  "Read 3 100 1 (world_ready\<lparr>rd := (rd world_ready)(3 := [RFail EINTR, RData [65]])\<rparr>) =
     Ret 1 (world_ready\<lparr>rd := (\<lambda>fd. [])(3 := []), mem := (\<lambda>a. 0)(100 := 65),
                       errno := EINTR\<rparr>) \<and>
   Write 3 100 1 (world_ready\<lparr>wr := [WFail EINTR, WRoom 5]\<rparr>) =
     Ret 1 (world_ready\<lparr>wr := [], out := (\<lambda>fd. [])(3 := [0]), errno := EINTR\<rparr>) \<and>
   Close 3 (world_ready\<lparr>cl := [Some EINTR, None]\<rparr>) =
     Ret () (world_ready\<lparr>cl := [], closed := [3], errno := EINTR\<rparr>) \<and>
   Accept 3 (world_ready\<lparr>acc := [AFail ECONNABORTED, AConn 7]\<rparr>) =
     Ret 7 (world_ready\<lparr>acc := [], errno := ECONNABORTED\<rparr>) \<and>
   Select 4 {0, 3} (world_ready\<lparr>sel := [SFail EINTR, SReady {3}]\<rparr>) =
     Ret (1, {3}) (world_ready\<lparr>sel := [], errno := EINTR\<rparr>) \<and>
   Read 3 100 1 (world_ready\<lparr>rd := (rd world_ready)(3 := [RFail EIO, RData [65]])\<rparr>) =
     Exit (- 1) (world_ready\<lparr>errno := EIO, stderr := [(''read()'', EIO)]\<rparr>) \<and>
   Accept 3 (world_ready\<lparr>acc := [AFail EBADF, AConn 7]\<rparr>) =
     Exit (- 1) (world_ready\<lparr>errno := EBADF, stderr := [(''accept()'', EBADF)]\<rparr>) \<and>
   Read 3 100 1 world_ready =
     Ret 1 (world_ready\<lparr>rd := (\<lambda>fd. [])(3 := []), mem := (\<lambda>a. 0)(100 := 65)\<rparr>) \<and>
   Write 3 100 1 world_ready = Ret 1 (world_ready\<lparr>wr := [], out := (\<lambda>fd. [])(3 := [0])\<rparr>) \<and>
   Close 3 world_ready = Ret () (world_ready\<lparr>cl := [], closed := [3]\<rparr>) \<and>
   Accept 3 world_ready = Ret 7 (world_ready\<lparr>acc := []\<rparr>) \<and>
   Select 4 {0, 3} world_ready = Ret (1, {3}) (world_ready\<lparr>sel := []\<rparr>) \<and>
   unat (1 :: size_t) \<le> unat (1 :: size_t) \<and> (1 :: size_t) \<noteq> - 1 \<and> (0 :: int) \<le> 7 \<and>
   closed (world_ready\<lparr>cl := [], closed := [3]\<rparr>) = closed world_ready @ [3]"
  using
    wrappers_retry_or_exit [where fd = 3 and buf = 100 and count = 1 and w = world_ready
      and e = EINTR and revs = "[RData [65]]" and wevs = "[WRoom 5]" and cevs = "[None]"
      and aevs = "[AConn 7]" and n = 4 and readfds = "{0, 3}" and sevs = "[SReady {3}]"
      and v = 1 and v' = 1 and c = 7 and k = 1 and fds = "{3}" and u = "()"
      and ?w1.0 = "world_ready\<lparr>rd := (\<lambda>fd. [])(3 := []), mem := (\<lambda>a. 0)(100 := 65)\<rparr>"
      and ?w2.0 = "world_ready\<lparr>wr := [], out := (\<lambda>fd. [])(3 := [0])\<rparr>"
      and ?w3.0 = "world_ready\<lparr>cl := [], closed := [3]\<rparr>"
      and ?w4.0 = "world_ready\<lparr>acc := []\<rparr>"
      and ?w5.0 = "world_ready\<lparr>sel := []\<rparr>"]
    wrappers_retry_or_exit [where fd = 3 and w = world_ready and e = ECONNABORTED
      and aevs = "[AConn 7]", THEN conjunct2, THEN conjunct2, THEN conjunct2, THEN conjunct1]
    wrappers_retry_or_exit [where fd = 3 and buf = 100 and count = 1 and w = world_ready
      and e = EIO and revs = "[RData [65]]", THEN conjunct1]
    wrappers_retry_or_exit [where fd = 3 and w = world_ready and e = EBADF
      and aevs = "[AConn 7]", THEN conjunct2, THEN conjunct2, THEN conjunct2, THEN conjunct1]
  by (simp add: world_ready_def world0_def Read.simps Write.simps Close.simps Accept.simps
      Select.simps sys_read_def sys_write_def sys_close_def sys_accept_def sys_select_def
      MAX_RW_COUNT_def load_def error_def perror_def Let_def)

section \<open>Properties of the server\<close>

lemma no_io_refl [simp]: "no_io w w"
  by (simp add: no_io_def)

lemma no_io_trans: "no_io w w0 \<Longrightarrow> no_io w0 w1 \<Longrightarrow> no_io w w1"
  by (simp add: no_io_def)

lemma no_io_perror [simp]: "no_io w (perror s w1) = no_io w w1"
  by (simp add: no_io_def perror_def)

lemma Accept_no_io: "no_io w (final (Accept socket w))"
proof (induction socket w rule: Accept.induct)
  case (1 socket w)
  show ?case
  proof (cases "sys_accept socket w")
    case None
    then show ?thesis by (simp add: Accept.simps [of socket w])
  next
    case (Some r)
    obtain rc0 w0 where r: "r = (rc0, w0)" by (cases r)
    have step: "no_io w w0" using Some r
      by (auto simp: sys_accept_def no_io_def split: list.splits acc_event.splits)
    show ?thesis
    proof (cases "rc0 \<noteq> - 1")
      case True
      with Some r step show ?thesis by (simp add: Accept.simps [of socket w])
    next
      case False
      show ?thesis
      proof (cases "errno w0 = EINTR \<or> errno w0 = ECONNABORTED")
        case True
        from "1.IH" [OF Some r [symmetric] _ True] False
        have "no_io w0 (final (Accept socket w0))" by simp
        with step have "no_io w (final (Accept socket w0))" by (rule no_io_trans)
        with Some r False True show ?thesis by (simp add: Accept.simps [of socket w])
      next
        case e: False
        with Some r False step show ?thesis by (simp add: Accept.simps [of socket w])
      qed
    qed
  qed
qed

lemma Malloc_no_io: "no_io w (final (Malloc sz w))"
  by (auto simp: Malloc_def sys_malloc_def no_io_def perror_def error_def
      split: list.splits prod.splits)

lemma Pthread_create_no_io: "no_io w (final (Pthread_create w))"
  by (auto simp: Pthread_create_def sys_pthread_create_def no_io_def perror_def error_def
      split: list.splits option.splits prod.splits)

lemma main_accept_no_io: "no_io w (final (main_accept lsocket w))"
proof (cases "Accept lsocket w")
  case (Ret csocket w1)
  have a: "no_io w w1" using Accept_no_io [of w lsocket] Ret by simp
  show ?thesis
  proof (cases "Malloc 4 w1")
    case r2: (Ret arg w2)
    have b: "no_io w1 w2" using Malloc_no_io [of w1 4] r2 by simp
    have c: "no_io w2 (final (Pthread_create w2))" by (rule Pthread_create_no_io)
    from a b c have "no_io w (final (Pthread_create w2))" by (blast intro: no_io_trans)
    with Ret r2 show ?thesis by (simp add: main_accept_def split: outcome.splits)
  next
    case (Exit c w2)
    with Malloc_no_io [of w1 4] a have "no_io w w2" by (auto intro: no_io_trans)
    with Ret Exit show ?thesis by (simp add: main_accept_def)
  next
    case (Blocked w2)
    with Malloc_no_io [of w1 4] a have "no_io w w2" by (auto intro: no_io_trans)
    with Ret Blocked show ?thesis by (simp add: main_accept_def)
  qed
next
  case (Exit c w1)
  with Accept_no_io [of w lsocket] show ?thesis by (simp add: main_accept_def)
next
  case (Blocked w1)
  with Accept_no_io [of w lsocket] show ?thesis by (simp add: main_accept_def)
qed

lemma serve_client_cases:
  "(serve_client socket m w = Ret r w1 \<longrightarrow> closed w1 = closed w @ [socket]) \<and>
   (serve_client socket m w = Exit c w2 \<longrightarrow> closed w2 = closed w) \<and>
   (serve_client socket m w = Blocked w3 \<longrightarrow> closed w3 = closed w) \<and>
   rd (final (serve_client socket m w)) = rd w \<and>
   mem (final (serve_client socket m w)) = mem w \<and>
   (\<forall>fd'. fd' \<noteq> socket \<longrightarrow> out (final (serve_client socket m w)) fd' = out w fd')"
proof -
  let ?W = "writen_server socket m 64 w"
  have wf: "write_frame socket w (final ?W)" by (rule writen_server_frame)
  show ?thesis
  proof (cases ?W)
    case (Ret n w0)
    with wf have f0: "closed w0 = closed w" "rd w0 = rd w" "mem w0 = mem w"
      "\<forall>fd'. fd' \<noteq> socket \<longrightarrow> out w0 fd' = out w fd'"
      by (simp_all add: write_frame_def others_def)
    from Close_closed [of socket w0] f0 Ret show ?thesis
      by (auto simp: serve_client_def close_frame_def split: outcome.splits)
  next
    case (Exit c0 w0)
    with wf show ?thesis by (auto simp: serve_client_def write_frame_def others_def)
  next
    case (Blocked w0)
    with wf show ?thesis by (auto simp: serve_client_def write_frame_def others_def)
  qed
qed

text \<open>
  C8, as stated, fails: the handler does not close its stream on a fatal-error path.
  Here the first \<^verbatim>\<open>write\<close> of the handler of descriptor 4 fails with \<^verbatim>\<open>EPIPE\<close>:
  \<^verbatim>\<open>error\<close> prints and exits, \<^verbatim>\<open>Close\<close> is never reached and no descriptor has been
  closed by the program.
\<close>

theorem serve_client_exit_without_close:
  "serve_client 4 100 world_pipe =
     Exit (- 1) (world_pipe\<lparr>wr := [], errno := EPIPE, stderr := [(''write()'', EPIPE)]\<rparr>) \<and>
   closed (final (serve_client 4 100 world_pipe)) = []"
  by (simp add: serve_client_def writen_server_def writen_loop_server.simps Write.simps
      sys_write_def world_pipe_def world0_def NULL_def error_def perror_def)

text \<open>
  C8, amended. When \<^verbatim>\<open>serve_client\<close> returns, it has closed its descriptor exactly once,
  as its last action; when it ends by \<^verbatim>\<open>error\<close> (a fatal failure of \<^verbatim>\<open>write\<close> or of
  \<^verbatim>\<open>close\<close>), it has closed nothing. The handler reads from no descriptor and writes
  to none but its own, and a turn of the listener's loop reads, writes and closes nothing.
\<close>

theorem serve_client_closes_on_return:
  "(serve_client socket random_message w = Ret r w1 \<longrightarrow> closed w1 = closed w @ [socket]) \<and>
   (serve_client socket random_message w = Exit c w2 \<longrightarrow> closed w2 = closed w) \<and>
   rd (final (serve_client socket random_message w)) = rd w \<and>
   (\<forall>fd'. fd' \<noteq> socket \<longrightarrow> out (final (serve_client socket random_message w)) fd' = out w fd') \<and>
   no_io w (final (main_accept lsocket w))"
  using serve_client_cases [of socket random_message w r w1 c w2]
    main_accept_no_io [of w lsocket]
  by simp

theorem serve_client_closes_on_return_witness:
  "serve_client 4 100 world_hello =
     Ret NULL (world_hello\<lparr>wr := [], cl := [], out := (\<lambda>fd. [])(4 := load 100 64 (\<lambda>a. 0)),
       closed := [4]\<rparr>) \<and>
   closed (world_hello\<lparr>wr := [], cl := [], out := (\<lambda>fd. [])(4 := load 100 64 (\<lambda>a. 0)),
       closed := [4]\<rparr>) = closed world_hello @ [4] \<and>
   serve_client 4 100 world_pipe =
     Exit (- 1) (world_pipe\<lparr>wr := [], errno := EPIPE, stderr := [(''write()'', EPIPE)]\<rparr>) \<and>
   closed (world_pipe\<lparr>wr := [], errno := EPIPE, stderr := [(''write()'', EPIPE)]\<rparr>) =
     closed world_pipe \<and>
   out (final (serve_client 4 100 world_hello)) 5 = out world_hello 5 \<and>
   no_io world_hello (final (main_accept 3 world_hello))"
  using serve_client_closes_on_return [where socket = 4 and random_message = 100
      and w = world_hello and r = NULL and lsocket = 3
      and ?w1.0 = "world_hello\<lparr>wr := [], cl := [], out := (\<lambda>fd. [])(4 := load 100 64 (\<lambda>a. 0)),
       closed := [4]\<rparr>" and c = "- 1" and ?w2.0 = world_hello]
    serve_client_closes_on_return [where socket = 4 and random_message = 100
      and w = world_pipe and r = NULL and lsocket = 3 and ?w1.0 = world_pipe and c = "- 1"
      and ?w2.0 = "world_pipe\<lparr>wr := [], errno := EPIPE, stderr := [(''write()'', EPIPE)]\<rparr>"]
  by (simp add: serve_client_def writen_server_def writen_loop_server.simps Write.simps
      Close.simps sys_write_def sys_close_def world_hello_def world_pipe_def world0_def
      NULL_def error_def perror_def MAX_RW_COUNT_def load_def Let_def)

lemma run_Terminated [simp]: "run lsocket (Terminated c w) sched = Terminated c w"
  by (induction sched) (simp_all add: run_def)

lemma run_Cons: "run lsocket p (a # sched) = run lsocket (step lsocket p a) sched"
  by (simp add: run_def)

text \<open>
  C2, as stated, fails: a fatal error in one handler ends the process. The listener (on
  descriptor 3) accepts two connections, 4 and 5, and a third is waiting. The handler of
  4 runs and its \<^verbatim>\<open>write\<close> fails with \<^verbatim>\<open>EPIPE\<close>: the process exits with status -1.
  After that the listener accepts nothing (the third connection stays in the queue) and
  the handler of 5 never runs.
\<close>

theorem handler_failure_ends_listener:
  "run 3 (Running world_server []) [Listener, Listener] =
     Running (world_server\<lparr>acc := [AConn 6], ma := [208], pt := [None]\<rparr>) [4, 5] \<and>
   run 3 (Running world_server []) [Listener, Listener, Handler 0 100] =
     Terminated (- 1) (world_server\<lparr>acc := [AConn 6], ma := [208], pt := [None], wr := [],
       errno := EPIPE, stderr := [(''write()'', EPIPE)]\<rparr>) \<and>
   run 3 (Running world_server []) [Listener, Listener, Handler 0 100, Listener, Handler 0 100] =
     Terminated (- 1) (world_server\<lparr>acc := [AConn 6], ma := [208], pt := [None], wr := [],
       errno := EPIPE, stderr := [(''write()'', EPIPE)]\<rparr>)"
  by (simp add: run_def main_accept_def Accept.simps sys_accept_def Malloc_def sys_malloc_def
      Pthread_create_def sys_pthread_create_def serve_client_def writen_server_def
      writen_loop_server.simps Write.simps sys_write_def world_server_def world0_def
      NULL_def error_def perror_def)

lemma serve_client_write_fails:
  "random_message \<noteq> NULL \<Longrightarrow> wr w = WFail e # evs \<Longrightarrow> e \<noteq> EINTR \<Longrightarrow>
   serve_client socket random_message w =
     Exit (- 1) (w\<lparr>wr := evs, errno := e, stderr := stderr w @ [(''write()'', e)]\<rparr>)"
  by (simp add: serve_client_def writen_server_def
      writen_loop_server.simps [of socket random_message 64 64 w]
      Write.simps [of socket random_message 64 w] sys_write_def error_def perror_def)

text \<open>
  C2, amended. A fatal error inside a handler ends the whole process: when
  \<^verbatim>\<open>serve_client\<close> ends by \<^verbatim>\<open>error\<close>, as it does when its \<^verbatim>\<open>write\<close> fails with anything
  but \<^verbatim>\<open>EINTR\<close>, the process has exited with status -1, and whatever the schedule that
  follows, no listener turn and no other handler changes anything.
\<close>

theorem handler_exit_ends_process:
  "(i < length hs \<and> serve_client (hs ! i) random_message w = Exit c w1 \<longrightarrow>
      run lsocket (Running w hs) (Handler i random_message # sched) = Terminated c w1) \<and>
   (i < length hs \<and> random_message \<noteq> NULL \<and> wr w = WFail e # evs \<and> e \<noteq> EINTR \<longrightarrow>
      run lsocket (Running w hs) (Handler i random_message # sched) =
        Terminated (- 1)
          (w\<lparr>wr := evs, errno := e, stderr := stderr w @ [(''write()'', e)]\<rparr>)) \<and>
   run lsocket (Terminated c w1) sched = Terminated c w1"
  by (simp add: run_Cons serve_client_write_fails)

theorem handler_exit_ends_process_witness:
  "(0 :: nat) < length [4 :: int, 5] \<and> (100 :: addr) \<noteq> NULL \<and>
   wr world_pipe = WFail EPIPE # [] \<and> EPIPE \<noteq> EINTR \<and>
   serve_client ([4, 5] ! 0) 100 world_pipe =
     Exit (- 1) (world_pipe\<lparr>wr := [], errno := EPIPE, stderr := [(''write()'', EPIPE)]\<rparr>) \<and>
   run 3 (Running world_pipe [4, 5]) [Handler 0 100, Listener, Handler 0 100] =
     Terminated (- 1)
       (world_pipe\<lparr>wr := [], errno := EPIPE, stderr := [(''write()'', EPIPE)]\<rparr>)"
  using handler_exit_ends_process [where i = 0 and hs = "[4, 5]" and random_message = 100
      and w = world_pipe and c = "- 1" and lsocket = 3 and e = EPIPE and evs = "[]"
      and ?w1.0 = "world_pipe\<lparr>wr := [], errno := EPIPE, stderr := [(''write()'', EPIPE)]\<rparr>"
      and sched = "[Listener, Handler 0 100]"]
  by (simp add: serve_client_def writen_server_def writen_loop_server.simps Write.simps
      sys_write_def world_pipe_def world0_def NULL_def error_def perror_def)

section \<open>Properties of the client's loop\<close>

text \<open>
  C7. The loop of \<^verbatim>\<open>do_work\<close> forwards a chunk read from local input with \<^verbatim>\<open>writen\<close>,
  but a chunk read from the connection with a single \<^verbatim>\<open>Write\<close> whose result it drops.
  In \<open>world_client\<close> the connection (descriptor 3) delivers the two bytes \<open>104, 105\<close>
  and local output takes one byte: the loop writes \<open>104\<close>, goes on, finds the end of
  local input and returns; \<open>105\<close> has been read and is never written. In \<open>world_typing\<close>
  the same two bytes come from local input and every \<^verbatim>\<open>write\<close> takes one byte: both
  reach the connection.
\<close>

theorem do_work_drops_bytes:
  "do_work 3 100 world_client =
     Ret () (world_client\<lparr>sel := [], rd := (\<lambda>fd. [])(3 := [], 0 := []), wr := [],
       mem := (\<lambda>a. 0)(100 := 104, 101 := 105), out := (\<lambda>fd. [])(1 := [104])\<rparr>) \<and>
   do_work 3 100 world_typing =
     Ret () (world_typing\<lparr>sel := [], rd := (\<lambda>fd. [])(0 := []), wr := [],
       mem := (\<lambda>a. 0)(100 := 104, 101 := 105), out := (\<lambda>fd. [])(3 := [104, 105])\<rparr>)"
  by (simp add: do_work_def do_work_loop.simps do_work_stdin_def do_work_socket_def
      Select.simps sys_select_def Read.simps sys_read_def Write.simps sys_write_def
      writen_client_def writen_loop.simps
      world_client_def world_typing_def world0_def MAX_int_def STDIN_FILENO_def
      STDOUT_FILENO_def MAXLINE_def FD_SET_def FD_ZERO_def FD_ISSET_def NULL_def
      MAX_RW_COUNT_def load_def Let_def)

lemma Select_no_io: "no_io w (final (Select n readfds w))"
proof (induction n readfds w rule: Select.induct)
  case (1 n readfds w)
  show ?case
  proof (cases "sys_select n readfds w")
    case None
    then show ?thesis by (simp add: Select.simps [of n readfds w])
  next
    case (Some r)
    obtain rc0 fds0 w0 where r: "r = (rc0, fds0, w0)" by (cases r)
    have step: "no_io w w0" using Some r
      by (auto simp: sys_select_def Let_def no_io_def split: list.splits sel_event.splits)
    show ?thesis
    proof (cases "rc0 \<noteq> - 1")
      case True
      with Some r step show ?thesis by (simp add: Select.simps [of n readfds w])
    next
      case False
      show ?thesis
      proof (cases "errno w0 = EINTR")
        case True
        from "1.IH" [OF Some r [symmetric] _ _ True] False
        have "no_io w0 (final (Select n fds0 w0))" by simp
        with step have "no_io w (final (Select n fds0 w0))" by (rule no_io_trans)
        with Some r False True show ?thesis by (simp add: Select.simps [of n readfds w])
      next
        case e: False
        with Some r False step show ?thesis by (simp add: Select.simps [of n readfds w])
      qed
    qed
  qed
qed

text \<open>
  C10. \<^verbatim>\<open>Select\<close> has reported both local input and the connection ready. If the read
  of local input returns 0, \<^verbatim>\<open>do_work\<close> returns at once, in the world that read has
  left: the connection's input is as it was before the iteration and nothing has been
  written. If it returns a chunk, the chunk goes to the connection first: when
  \<^verbatim>\<open>writen\<close> does not return, \<^verbatim>\<open>do_work\<close> ends there with the connection's input
  untouched; when it returns, the whole chunk has been written and only then is the
  connection served, in the world \<^verbatim>\<open>writen\<close> has left.
\<close>

theorem do_work_stdin_first:
  "socket \<noteq> STDIN_FILENO \<and>
   Select (MAX_int STDIN_FILENO socket + 1) (FD_SET socket (FD_SET STDIN_FILENO FD_ZERO)) w =
     Ret (k, fds) w1 \<and>
   FD_ISSET STDIN_FILENO fds \<and> FD_ISSET socket fds \<longrightarrow>
   (Read STDIN_FILENO s MAXLINE w1 = Ret 0 w2 \<longrightarrow>
      do_work socket s w = Ret () w2 \<and> rd w2 socket = rd w socket \<and> out w2 = out w) \<and>
   (Read STDIN_FILENO s MAXLINE w1 = Ret rc w2 \<and> rc \<noteq> 0 \<longrightarrow>
      rd w2 socket = rd w socket \<and>
      (writen_client socket s rc w2 = Exit c w3 \<longrightarrow>
         do_work socket s w = Exit c w3 \<and> rd w3 socket = rd w socket) \<and>
      (writen_client socket s rc w2 = Blocked w3 \<longrightarrow>
         do_work socket s w = Blocked w3 \<and> rd w3 socket = rd w socket) \<and>
      (writen_client socket s rc w2 = Ret r w3 \<longrightarrow>
         rd w3 socket = rd w socket \<and>
         out w3 socket = out w socket @ load s (unat rc) (mem w2) \<and>
         do_work socket s w =
           (case do_work_socket socket s fds w3 of
              Ret Break w4 \<Rightarrow> Ret () w4
            | Ret Continue w4 \<Rightarrow> do_work socket s w4
            | Exit c w4 \<Rightarrow> Exit c w4
            | Blocked w4 \<Rightarrow> Blocked w4)))"
proof (intro impI, elim conjE)
  let ?n = "MAX_int STDIN_FILENO socket + 1"
  let ?fds = "FD_SET socket (FD_SET STDIN_FILENO FD_ZERO)"
  assume ne: "socket \<noteq> STDIN_FILENO" and S: "Select ?n ?fds w = Ret (k, fds) w1"
    and i0: "FD_ISSET STDIN_FILENO fds" and i1: "FD_ISSET socket fds"
  have f1: "rd w1 = rd w" "out w1 = out w"
    using Select_no_io [of w ?n ?fds] S by (simp_all add: no_io_def)
  have f2: "rd (final (Read STDIN_FILENO s MAXLINE w1)) socket = rd w socket"
    "out (final (Read STDIN_FILENO s MAXLINE w1)) = out w"
    using Read_frame [of STDIN_FILENO w1 s MAXLINE] ne f1 by (simp_all add: read_frame_def)
  have unfold: "do_work socket s w =
      (case do_work_stdin socket s fds w1 of
         Ret Break w2 \<Rightarrow> Ret () w2
       | Ret Continue w2 \<Rightarrow>
           (case do_work_socket socket s fds w2 of
              Ret Break w3 \<Rightarrow> Ret () w3
            | Ret Continue w3 \<Rightarrow> do_work socket s w3
            | Exit c w3 \<Rightarrow> Exit c w3
            | Blocked w3 \<Rightarrow> Blocked w3)
       | Exit c w2 \<Rightarrow> Exit c w2
       | Blocked w2 \<Rightarrow> Blocked w2)"
    using S by (simp add: do_work_def do_work_loop.simps [of socket s ?n w]
        split: outcome.splits ctl.splits)
  show "(Read STDIN_FILENO s MAXLINE w1 = Ret 0 w2 \<longrightarrow>
      do_work socket s w = Ret () w2 \<and> rd w2 socket = rd w socket \<and> out w2 = out w) \<and>
   (Read STDIN_FILENO s MAXLINE w1 = Ret rc w2 \<and> rc \<noteq> 0 \<longrightarrow>
      rd w2 socket = rd w socket \<and>
      (writen_client socket s rc w2 = Exit c w3 \<longrightarrow>
         do_work socket s w = Exit c w3 \<and> rd w3 socket = rd w socket) \<and>
      (writen_client socket s rc w2 = Blocked w3 \<longrightarrow>
         do_work socket s w = Blocked w3 \<and> rd w3 socket = rd w socket) \<and>
      (writen_client socket s rc w2 = Ret r w3 \<longrightarrow>
         rd w3 socket = rd w socket \<and>
         out w3 socket = out w socket @ load s (unat rc) (mem w2) \<and>
         do_work socket s w =
           (case do_work_socket socket s fds w3 of
              Ret Break w4 \<Rightarrow> Ret () w4
            | Ret Continue w4 \<Rightarrow> do_work socket s w4
            | Exit c w4 \<Rightarrow> Exit c w4
            | Blocked w4 \<Rightarrow> Blocked w4)))"
  proof (intro conjI impI)
    assume R: "Read STDIN_FILENO s MAXLINE w1 = Ret 0 w2"
    with i0 unfold show "do_work socket s w = Ret () w2" by (simp add: do_work_stdin_def)
    from R f2 show "rd w2 socket = rd w socket" and "out w2 = out w" by simp_all
  next
    assume "Read STDIN_FILENO s MAXLINE w1 = Ret rc w2 \<and> rc \<noteq> 0"
    then have R: "Read STDIN_FILENO s MAXLINE w1 = Ret rc w2" and nz: "rc \<noteq> 0" by simp_all
    from R f2 show f3: "rd w2 socket = rd w socket" by simp
    from R f2 have o2: "out w2 = out w" by simp
    have f4: "rd (final (writen_client socket s rc w2)) = rd w2"
      using writen_client_frame [of socket w2 s rc] by (simp add: write_frame_def)
    {
      assume W: "writen_client socket s rc w2 = Exit c w3"
      with i0 R nz unfold show "do_work socket s w = Exit c w3"
        by (simp add: do_work_stdin_def)
      from W f3 f4 show "rd w3 socket = rd w socket" by simp
    }
    {
      assume W: "writen_client socket s rc w2 = Blocked w3"
      with i0 R nz unfold show "do_work socket s w = Blocked w3"
        by (simp add: do_work_stdin_def)
      from W f3 f4 show "rd w3 socket = rd w socket" by simp
    }
    {
      assume W: "writen_client socket s rc w2 = Ret r w3"
      from W f3 f4 show "rd w3 socket = rd w socket" by simp
      from writen_client_Ret [OF W] o2
      show "out w3 socket = out w socket @ load s (unat rc) (mem w2)" by simp
      from W i0 R nz unfold show "do_work socket s w =
           (case do_work_socket socket s fds w3 of
              Ret Break w4 \<Rightarrow> Ret () w4
            | Ret Continue w4 \<Rightarrow> do_work socket s w4
            | Exit c w4 \<Rightarrow> Exit c w4
            | Blocked w4 \<Rightarrow> Blocked w4)"
        by (simp add: do_work_stdin_def)
    }
  qed
qed

theorem do_work_stdin_first_witness:
  "do_work 3 100 (world_both [] []) =
     Ret () (world_both [] []\<lparr>sel := [], rd := (\<lambda>fd. [])(3 := [RData [120]], 0 := [])\<rparr>) \<and>
   do_work 3 100 (world_both [104] [WFail EPIPE]) =
     Exit (- 1) (world_both [104] [WFail EPIPE]\<lparr>sel := [],
       rd := (\<lambda>fd. [])(3 := [RData [120]], 0 := []), mem := (\<lambda>a. 0)(100 := 104), wr := [],
       errno := EPIPE, stderr := [(''write()'', EPIPE)]\<rparr>) \<and>
   do_work 3 100 (world_both [104] [WRoom 1, WRoom 1]) =
     Blocked (world_both [104] [WRoom 1, WRoom 1]\<lparr>sel := [],
       rd := (\<lambda>fd. [])(0 := [], 3 := []), mem := (\<lambda>a. 0)(100 := 120), wr := [],
       out := (\<lambda>fd. [])(3 := [104], 1 := [120])\<rparr>)"
  using
    do_work_stdin_first [where socket = 3 and s = 100 and w = "world_both [] []"
      and k = 2 and fds = "{0, 3}" and ?w1.0 = "world_both [] []\<lparr>sel := []\<rparr>"
      and ?w2.0 = "world_both [] []\<lparr>sel := [], rd := (\<lambda>fd. [])(3 := [RData [120]], 0 := [])\<rparr>"
      and rc = 0 and c = 0 and r = 0 and ?w3.0 = world0]
    do_work_stdin_first [where socket = 3 and s = 100 and w = "world_both [104] [WFail EPIPE]"
      and k = 2 and fds = "{0, 3}" and ?w1.0 = "world_both [104] [WFail EPIPE]\<lparr>sel := []\<rparr>"
      and ?w2.0 = "world_both [104] [WFail EPIPE]\<lparr>sel := [],
         rd := (\<lambda>fd. [])(3 := [RData [120]], 0 := []), mem := (\<lambda>a. 0)(100 := 104)\<rparr>"
      and rc = 1 and c = "- 1" and r = 0
      and ?w3.0 = "world_both [104] [WFail EPIPE]\<lparr>sel := [],
       rd := (\<lambda>fd. [])(3 := [RData [120]], 0 := []), mem := (\<lambda>a. 0)(100 := 104), wr := [],
       errno := EPIPE, stderr := [(''write()'', EPIPE)]\<rparr>"]
    do_work_stdin_first [where socket = 3 and s = 100
      and w = "world_both [104] [WRoom 1, WRoom 1]"
      and k = 2 and fds = "{0, 3}"
      and ?w1.0 = "world_both [104] [WRoom 1, WRoom 1]\<lparr>sel := []\<rparr>"
      and ?w2.0 = "world_both [104] [WRoom 1, WRoom 1]\<lparr>sel := [],
         rd := (\<lambda>fd. [])(3 := [RData [120]], 0 := []), mem := (\<lambda>a. 0)(100 := 104)\<rparr>"
      and rc = 1 and c = "- 1" and r = 1
      and ?w3.0 = "world_both [104] [WRoom 1, WRoom 1]\<lparr>sel := [],
         rd := (\<lambda>fd. [])(3 := [RData [120]], 0 := []), mem := (\<lambda>a. 0)(100 := 104),
         wr := [WRoom 1], out := (\<lambda>fd. [])(3 := [104])\<rparr>"]
  by (simp add: do_work_def do_work_loop.simps do_work_stdin_def do_work_socket_def
      Select.simps sys_select_def Read.simps sys_read_def Write.simps sys_write_def
      writen_client_def writen_loop.simps
      world_both_def world0_def MAX_int_def STDIN_FILENO_def
      STDOUT_FILENO_def MAXLINE_def FD_SET_def FD_ZERO_def FD_ISSET_def NULL_def
      MAX_RW_COUNT_def load_def Let_def error_def perror_def)

end
